theory Spec2Isabelle
  imports Complex_Main "HOL-Library.Word"
begin

unbundle bit_operations_syntax

section \<open>Text truncation before synthesis (services/streaming\_service.py)\<close>

text \<open>
  A Python \<open>str\<close> is a sequence of Unicode code points; the danda used as a sentence
  mark has code point 2404 and does not fit a byte, so text is a list of code points.
\<close>

type_synonym ustr = "nat list"

definition ch_period :: nat where "ch_period = 46"
definition ch_bang :: nat where "ch_bang = 33"
definition ch_question :: nat where "ch_question = 63"
definition ch_danda :: nat where "ch_danda = 2404"
definition ch_space :: nat where "ch_space = 32"

definition ellipsis :: ustr where
  "ellipsis = [46, 46, 46]"

text \<open>\<open>str.rfind\<close>: the highest index at which the character occurs, \<open>-1\<close> if none.\<close>

primrec rfind :: "ustr \<Rightarrow> nat \<Rightarrow> int" where
  "rfind [] c = -1"
| "rfind (x # xs) c =
     (let r = rfind xs c in if r \<ge> 0 then r + 1 else if x = c then 0 else -1)"

text \<open>
  \<open>_smart_truncate(text, limit=490)\<close>. The limit is a length, so a natural number;
  \<open>limit // 2\<close> is \<open>limit div 2\<close>. \<open>last_period_of\<close> is the source's local
  \<open>last_period\<close>: the maximum of the four \<open>rfind\<close> results.
\<close>

definition last_period_of :: "ustr \<Rightarrow> int" where
  "last_period_of truncated =
     max (max (max (rfind truncated ch_period) (rfind truncated ch_bang))
              (rfind truncated ch_question))
         (rfind truncated ch_danda)"

definition smart_truncate :: "ustr \<Rightarrow> nat \<Rightarrow> ustr" where
  "smart_truncate txt limit =
     (if length txt \<le> limit then txt
      else
        (let truncated = take limit txt;
             last_period = last_period_of truncated
         in if last_period > int (limit div 2) then take (nat (last_period + 1)) truncated
            else
              (let last_space = rfind truncated ch_space
               in if last_space > int (limit div 2)
                  then take (nat last_space) truncated @ ellipsis
                  else truncated @ ellipsis)))"

definition DEFAULT_LIMIT :: nat where
  "DEFAULT_LIMIT = 490"

text \<open>The sentence marks the truncation looks for.\<close>

definition sentence_mark :: "nat \<Rightarrow> bool" where
  "sentence_mark c = (c = ch_period \<or> c = ch_bang \<or> c = ch_question \<or> c = ch_danda)"

text \<open>
  \<open>last_at P txt limit i\<close>: \<open>i\<close> is the last position before \<open>limit\<close> whose character
  satisfies \<open>P\<close>.
\<close>

definition last_at :: "(nat \<Rightarrow> bool) \<Rightarrow> ustr \<Rightarrow> nat \<Rightarrow> nat \<Rightarrow> bool" where
  "last_at P txt limit i =
     (i < limit \<and> i < length txt \<and> P (txt ! i) \<and>
      (\<forall>k. i < k \<and> k < limit \<and> k < length txt \<longrightarrow> \<not> P (txt ! k)))"

text \<open>A text of 601 characters whose only space is at index 300 and which has no sentence mark.\<close>

definition two_words :: ustr where
  "two_words = replicate 300 97 @ [32] @ replicate 300 98"

text \<open>Sample inputs for a limit of 10: a sentence mark at index 6, a space at index 6, neither.\<close>

definition w_sentence :: ustr where "w_sentence = [97,97,97,97,97,97,46,32,98,98,98,98,98,98]"
definition w_word :: ustr where "w_word = [97,97,97,97,97,97,32,98,98,98,98,98,98]"
definition w_hard :: ustr where "w_hard = [97,97,97,97,97,97,97,97,97,97,97,97,97]"


section \<open>Audio frame analysis (ws\_handler.py)\<close>

type_synonym byte = "8 word"
type_synonym bytes = "byte list"

text \<open>
  The exceptions that can leave the receive loop: \<open>struct.error\<close> from the frame
  analysis, \<open>binascii.Error\<close> from the base64 decoding of an audio message, and the error
  of a text frame that is not a JSON object.
\<close>

datatype error = StructError | DecodeError | MessageError

text \<open>One 16-bit signed little-endian sample (format \<open>h\<close> with \<open><\<close>).\<close>

definition sample_le :: "byte \<Rightarrow> byte \<Rightarrow> int" where
  "sample_le lo hi = sint (word_of_int (uint lo + 256 * uint hi) :: 16 word)"

fun samples_of :: "bytes \<Rightarrow> int list" where
  "samples_of (lo # hi # rest) = sample_le lo hi # samples_of rest"
| "samples_of [x] = []"
| "samples_of [] = []"

text \<open>
  \<open>struct.unpack(f"<{n}h", buf)\<close> raises unless the buffer has exactly \<open>2 * n\<close> bytes.
\<close>

definition unpack_h :: "nat \<Rightarrow> bytes \<Rightarrow> error + int list" where
  "unpack_h n buf = (if length buf \<noteq> 2 * n then Inl StructError else Inr (samples_of buf))"

text \<open>
  \<open>_calculate_rms\<close>. Python computes the mean and its square root in floating point;
  here they are real numbers, so a comparison of the result with a threshold is the
  exact one.
\<close>

definition calculate_rms :: "bytes \<Rightarrow> error + real" where
  "calculate_rms audio_bytes =
     (if length audio_bytes < 2 then Inr 0
      else
        (case unpack_h (length audio_bytes div 2) audio_bytes of
           Inl e \<Rightarrow> Inl e
         | Inr samples \<Rightarrow>
             if samples = [] then Inr 0
             else Inr (sqrt (real_of_int (sum_list (map (\<lambda>s. s * s) samples))
                             / real (length samples)))))"


section \<open>The session (ws\_handler.py, class VoiceSession)\<close>

datatype SessionState = GREETING | LISTENING | USER_SPEAKING | PROCESSING | AI_SPEAKING

datatype role = User | Assistant

type_synonym turn = "role \<times> ustr"

datatype stage = Listening | Transcribing | Searching | Thinking | Speaking

text \<open>The JSON events sent to the browser.\<close>

datatype event =
    Vad bool
  | Transcript ustr role
  | Token ustr
  | Audio bytes
  | Status stage
  | Interrupt
  | Perf
  | Ping
  | ErrorEvent

text \<open>The remote calls a turn makes.\<close>

datatype backend_call = CallStt | CallRag | CallLlm | CallTts

text \<open>
  An \<open>asyncio\<close> task of the session: the greeting or the pipeline of one utterance.
  \<open>started\<close> says whether the coroutine has run at all, \<open>in_try\<close> whether it is
  suspended inside the \<open>try\<close> block of \<open>_process_utterance\<close>, whose handler for
  \<open>CancelledError\<close> then runs when the task is cancelled.
\<close>

datatype task_kind = Greet | Utterance bytes

datatype task_status = TaskPending | TaskFinished | TaskCancelled

record task =
  kind :: task_kind
  status :: task_status
  started :: bool
  in_try :: bool

text \<open>
  The fields of \<open>VoiceSession.__init__\<close>. \<open>processing_task\<close> is a handle: the index of
  the task in the event loop's task table. Times are seconds.
\<close>

record session =
  conversation_history :: "turn list"
  is_active :: bool
  state :: SessionState
  state_entered_at :: real
  audio_buffer :: bytes
  silence_frames :: int
  speech_frames :: int
  is_speaking :: bool
  last_speech_time :: real
  chunk_count :: int
  processing_task :: "nat option"
  barge_in_frames :: int
  playback_ended_at :: real

text \<open>
  The session together with what it acts on: the tasks the event loop holds for it, the
  events sent to the browser (oldest first) and the remote calls made.
\<close>

record world = session +
  tasks :: "task list"
  sent :: "event list"
  calls :: "backend_call list"

definition SILENCE_THRESHOLD :: real where "SILENCE_THRESHOLD = 80"
definition SPEECH_THRESHOLD :: real where "SPEECH_THRESHOLD = 200"
definition SILENCE_DURATION_MS :: int where "SILENCE_DURATION_MS = 1000"
definition MIN_SPEECH_DURATION_MS :: int where "MIN_SPEECH_DURATION_MS = 300"
definition FRAME_DURATION_MS :: int where "FRAME_DURATION_MS = 256"
definition MIN_AUDIO_BYTES :: nat where "MIN_AUDIO_BYTES = 8192"
definition BARGE_IN_THRESHOLD :: real where "BARGE_IN_THRESHOLD = 500"
definition MIN_BARGE_IN_FRAMES :: int where "MIN_BARGE_IN_FRAMES = 3"
definition PLAYBACK_COOLDOWN_MS :: real where "PLAYBACK_COOLDOWN_MS = 500"
definition WATCHDOG_TIMEOUT_S :: real where "WATCHDOG_TIMEOUT_S = 30"
definition GREETING_TIMEOUT_S :: real where "GREETING_TIMEOUT_S = 120"
definition MAX_HISTORY_ENTRIES :: nat where "MAX_HISTORY_ENTRIES = 10"

text \<open>\<open>VoiceSession(websocket, session_id)\<close> at time \<open>now\<close>, with no task yet.\<close>

definition new_session :: "real \<Rightarrow> world" where
  "new_session now =
     \<lparr> conversation_history = [], is_active = True, state = GREETING,
       state_entered_at = now, audio_buffer = [], silence_frames = 0, speech_frames = 0,
       is_speaking = False, last_speech_time = 0, chunk_count = 0,
       processing_task = None, barge_in_frames = 0, playback_ended_at = 0,
       tasks = [], sent = [], calls = [] \<rparr>"

definition set_state :: "real \<Rightarrow> SessionState \<Rightarrow> 'a session_scheme \<Rightarrow> 'a session_scheme" where
  "set_state now new_state s = s\<lparr>state := new_state, state_entered_at := now\<rparr>"

definition is_ai_speaking :: "'a session_scheme \<Rightarrow> bool" where
  "is_ai_speaking s = (state s = AI_SPEAKING \<or> state s = GREETING)"

text \<open>\<open>send_event\<close> swallows every send error, so it only adds to what was sent.\<close>

definition send_event :: "event \<Rightarrow> world \<Rightarrow> world" where
  "send_event e w = w\<lparr>sent := sent w @ [e]\<rparr>"

text \<open>\<open>asyncio.create_task\<close>, with the handle stored in \<open>_processing_task\<close>.\<close>

definition create_task :: "task_kind \<Rightarrow> world \<Rightarrow> world" where
  "create_task k w =
     w\<lparr>processing_task := Some (length (tasks w)),
       tasks := tasks w @ [\<lparr>kind = k, status = TaskPending, started = False, in_try = False\<rparr>]\<rparr>"

text \<open>\<open>task.done()\<close>.\<close>

definition task_done :: "world \<Rightarrow> nat \<Rightarrow> bool" where
  "task_done w i = (\<not> (i < length (tasks w) \<and> status (tasks w ! i) = TaskPending))"


subsection \<open>Voice activity detection\<close>

datatype vad = speech_start | speech_continue | speech_end | silence

text \<open>\<open>_detect_speech\<close>: the classification of the frame and the updated counters.\<close>

definition detect_speech ::
  "real \<Rightarrow> bytes \<Rightarrow> 'a session_scheme \<Rightarrow> error + (vad \<times> 'a session_scheme)" where
  "detect_speech now audio_bytes s =
     (case calculate_rms audio_bytes of
        Inl e \<Rightarrow> Inl e
      | Inr rms \<Rightarrow>
          (let s1 = s\<lparr>chunk_count := chunk_count s + 1\<rparr>
           in if rms > SPEECH_THRESHOLD then
                (let s2 = s1\<lparr>silence_frames := 0, speech_frames := speech_frames s1 + 1\<rparr>
                 in if \<not> is_speaking s2
                    then Inr (speech_start, s2\<lparr>is_speaking := True, last_speech_time := now\<rparr>)
                    else Inr (speech_continue, s2))
              else
                (let s2 = s1\<lparr>silence_frames := silence_frames s1 + 1\<rparr>;
                     silence_ms = silence_frames s2 * FRAME_DURATION_MS
                 in if is_speaking s2 \<and> silence_ms \<ge> SILENCE_DURATION_MS then
                      (let speech_ms = speech_frames s2 * FRAME_DURATION_MS;
                           s3 = s2\<lparr>is_speaking := False, speech_frames := 0,
                                   silence_frames := 0\<rparr>
                       in if speech_ms \<ge> MIN_SPEECH_DURATION_MS
                          then Inr (speech_end, s3)
                          else Inr (silence, s3\<lparr>audio_buffer := []\<rparr>))
                    else if \<not> is_speaking s2 then Inr (silence, s2)
                    else Inr (speech_continue, s2))))"


subsection \<open>Cancelling the task in flight\<close>

text \<open>
  The \<open>except asyncio.CancelledError\<close> handler of \<open>_process_utterance\<close>: back to
  LISTENING, then the error is raised again.
\<close>

definition on_cancelled :: "real \<Rightarrow> world \<Rightarrow> world" where
  "on_cancelled now w = set_state now LISTENING w"

text \<open>
  \<open>task.cancel()\<close> on a pending task, and the task seeing it: \<open>CancelledError\<close> is raised
  at the await where the task is suspended. Only the \<open>try\<close> block of an utterance's
  pipeline handles it; \<open>_auto_greet\<close> catches \<open>Exception\<close> only. A task that has not
  started never runs.
\<close>

definition cancel_task :: "real \<Rightarrow> nat \<Rightarrow> world \<Rightarrow> world" where
  "cancel_task now i w =
     (let t = tasks w ! i;
          w1 = w\<lparr>tasks := (tasks w)[i := t\<lparr>status := TaskCancelled\<rparr>]\<rparr>
      in case kind t of
           Utterance audio_data \<Rightarrow> if started t \<and> in_try t then on_cancelled now w1 else w1
         | Greet \<Rightarrow> w1)"

text \<open>\<open>_interrupt_ai\<close>: cancel the task and wait for it, then tell the browser.\<close>

definition interrupt_ai :: "real \<Rightarrow> world \<Rightarrow> world" where
  "interrupt_ai now w =
     (let w1 = (case processing_task w of
                  None \<Rightarrow> w
                | Some i \<Rightarrow>
                    if \<not> task_done w i
                    then (cancel_task now i w)\<lparr>processing_task := None\<rparr>
                    else w)
      in send_event (Status Listening) (send_event Interrupt w1))"


subsection \<open>Incoming audio\<close>

text \<open>The post-playback cooldown test of \<open>handle_audio_chunk\<close>.\<close>

definition in_cooldown :: "real \<Rightarrow> 'a session_scheme \<Rightarrow> bool" where
  "in_cooldown now s =
     (playback_ended_at s > 0 \<and> (now - playback_ended_at s) * 1000 < PLAYBACK_COOLDOWN_MS)"

text \<open>
  \<open>handle_audio_chunk\<close>. The exception of \<open>_calculate_rms\<close> leaves the method before
  anything is written, so the error carries no state.
\<close>

definition handle_audio_chunk :: "real \<Rightarrow> bytes \<Rightarrow> world \<Rightarrow> error + world" where
  "handle_audio_chunk now audio_bytes w =
     (if state w = AI_SPEAKING \<or> state w = GREETING then
        (case calculate_rms audio_bytes of
           Inl e \<Rightarrow> Inl e
         | Inr rms \<Rightarrow>
             (let w1 = w\<lparr>chunk_count := chunk_count w + 1\<rparr>
              in if rms > BARGE_IN_THRESHOLD then
                   (let w2 = w1\<lparr>barge_in_frames := barge_in_frames w1 + 1\<rparr>
                    in if barge_in_frames w2 \<ge> MIN_BARGE_IN_FRAMES then
                         (let w3 = interrupt_ai now (w2\<lparr>barge_in_frames := 0\<rparr>);
                              w4 = w3\<lparr>audio_buffer := audio_bytes, is_speaking := True,
                                      speech_frames := 1, silence_frames := 0\<rparr>
                          in Inr (send_event (Vad True) (set_state now USER_SPEAKING w4)))
                       else Inr w2)
                 else Inr (w1\<lparr>barge_in_frames := 0\<rparr>)))
      else if state w = PROCESSING then Inr w
      else if in_cooldown now w then Inr w
      else
        (case detect_speech now audio_bytes w of
           Inl e \<Rightarrow> Inl e
         | Inr (vad_result, w1) \<Rightarrow>
             (case vad_result of
                speech_start \<Rightarrow>
                  Inr ((send_event (Vad True) (set_state now USER_SPEAKING w1))
                         \<lparr>audio_buffer := audio_bytes\<rparr>)
              | speech_continue \<Rightarrow>
                  Inr (if is_speaking w1
                       then w1\<lparr>audio_buffer := audio_buffer w1 @ audio_bytes\<rparr> else w1)
              | speech_end \<Rightarrow>
                  (let w2 = send_event (Vad False) w1
                   in if length (audio_buffer w2) < MIN_AUDIO_BYTES
                      then Inr (set_state now LISTENING (w2\<lparr>audio_buffer := []\<rparr>))
                      else
                        (let w3 = set_state now PROCESSING w2;
                             audio_data = audio_buffer w3
                         in Inr (create_task (Utterance audio_data)
                                   (w3\<lparr>audio_buffer := []\<rparr>))))
              | silence \<Rightarrow> Inr w1)))"


subsection \<open>Playback reports and the watchdog\<close>

definition handle_playback_done :: "real \<Rightarrow> 'a session_scheme \<Rightarrow> 'a session_scheme" where
  "handle_playback_done now s =
     set_state now LISTENING
       (s\<lparr>playback_ended_at := now, barge_in_frames := 0, is_speaking := False,
          speech_frames := 0, silence_frames := 0, audio_buffer := []\<rparr>)"

text \<open>\<open>handle_user_interrupt\<close> only writes a log line.\<close>

definition handle_user_interrupt :: "'a session_scheme \<Rightarrow> 'a session_scheme" where
  "handle_user_interrupt s = s"

definition check_watchdog :: "real \<Rightarrow> world \<Rightarrow> world" where
  "check_watchdog now w =
     (if state w = AI_SPEAKING then
        (if now - state_entered_at w > WATCHDOG_TIMEOUT_S
         then send_event (Status Listening)
                (set_state now LISTENING (w\<lparr>playback_ended_at := now\<rparr>))
         else w)
      else if state w = GREETING then
        (if now - state_entered_at w > GREETING_TIMEOUT_S
         then send_event (Status Listening) (set_state now LISTENING w)
         else w)
      else w)"

section \<open>Reply generation (services/streaming\_service.py, stream\_llm)\<close>

text \<open>The two fixed apology phrases, as code points.\<close>

definition APOLOGY :: ustr where
  "APOLOGY = [3093, 3149, 3127, 3118, 3135, 3074, 3098, 3074, 3105, 3135, 44, 32, 3118,
     3123, 3149, 3123, 3136, 32, 3098, 3142, 3114, 3149, 3114, 3095, 3122, 3120, 3134, 63]"

definition APOLOGY_DELAY :: ustr where
  "APOLOGY_DELAY = [3093, 3149, 3127, 3118, 3135, 3074, 3098, 3074, 3105, 3135, 44, 32,
     3078, 3122, 3128, 3149, 3119, 3074, 32, 3077, 3125, 3137, 3108, 3147, 3074, 3110, 3135,
     46, 32, 3118, 3123, 3149, 3123, 3136, 32, 3098, 3142, 3114, 3149, 3114, 3074, 3105,
     3135, 46]"

text \<open>
  What the streaming HTTP call does, seen from \<open>stream_llm\<close>. A line of the response is
  not a \<open>data:\<close> line, the \<open>[DONE]\<close> mark, a chunk with a content string (possibly
  empty), text that is not JSON, or JSON of another shape (whose access raises). The body
  or the stream ends normally, with a read timeout, or with another exception.
\<close>

datatype sse_line = NotData | Done | Content ustr | BadJson | Malformed

datatype stream_end = EndOfStream | ReadTimeout | OtherError

datatype http_stream =
    ConnectReadTimeout
  | ConnectError
  | Response nat stream_end "sse_line list" stream_end

text \<open>The non-streaming call of \<open>_llm_fallback\<close>: the stripped content on status 200.\<close>

datatype fallback_response = FallbackStatusNot200 | FallbackRaised | FallbackContent ustr

definition llm_fallback :: "fallback_response \<Rightarrow> ustr option" where
  "llm_fallback r = (case r of FallbackContent c \<Rightarrow> Some c | _ \<Rightarrow> None)"

text \<open>What an async generator gives its consumer: the tokens, then the end or an exception.\<close>

record token_stream =
  yielded :: "ustr list"
  raised :: bool

text \<open>The phrase yielded by the \<open>except\<close> clauses of \<open>stream_llm\<close>.\<close>

definition apology_for :: "stream_end \<Rightarrow> ustr list" where
  "apology_for e = (case e of EndOfStream \<Rightarrow> [] | ReadTimeout \<Rightarrow> [APOLOGY_DELAY]
                    | OtherError \<Rightarrow> [APOLOGY])"

fun stream_lines :: "sse_line list \<Rightarrow> stream_end \<Rightarrow> ustr list" where
  "stream_lines [] e = apology_for e"
| "stream_lines (NotData # ls) e = stream_lines ls e"
| "stream_lines (Done # ls) e = []"
| "stream_lines (Content c # ls) e = (if c \<noteq> [] then c # stream_lines ls e else stream_lines ls e)"
| "stream_lines (BadJson # ls) e = stream_lines ls e"
| "stream_lines (Malformed # ls) e = [APOLOGY]"

text \<open>\<open>response.raise_for_status()\<close> of httpx raises unless the status is 2xx.\<close>

definition raises_for_status :: "nat \<Rightarrow> bool" where
  "raises_for_status code = (\<not> (200 \<le> code \<and> code < 300))"

text \<open>
  \<open>stream_llm\<close>: the tokens it yields and the number of fallback calls it makes. Every
  exception is caught inside, so the generator itself never raises.
\<close>

definition stream_llm :: "http_stream \<Rightarrow> fallback_response \<Rightarrow> token_stream \<times> nat" where
  "stream_llm http fb =
     (case http of
        ConnectReadTimeout \<Rightarrow> (\<lparr>yielded = [APOLOGY_DELAY], raised = False\<rparr>, 0)
      | ConnectError \<Rightarrow> (\<lparr>yielded = [APOLOGY], raised = False\<rparr>, 0)
      | Response status_code error_body ls e \<Rightarrow>
          if status_code \<noteq> 200 \<and> error_body \<noteq> EndOfStream
          then (\<lparr>yielded = apology_for error_body, raised = False\<rparr>, 0)
          else if status_code \<noteq> 200 \<and> status_code = 400 then
            (case llm_fallback fb of
               Some fallback \<Rightarrow>
                 if fallback \<noteq> [] then (\<lparr>yielded = [fallback], raised = False\<rparr>, 1)
                 else (\<lparr>yielded = [APOLOGY], raised = False\<rparr>, 1)
             | None \<Rightarrow> (\<lparr>yielded = [APOLOGY], raised = False\<rparr>, 1))
          else if raises_for_status status_code
          then (\<lparr>yielded = [APOLOGY], raised = False\<rparr>, 0)
          else (\<lparr>yielded = stream_lines ls e, raised = False\<rparr>, 0))"


section \<open>The pipeline of one turn (ws\_handler.py, \_process\_utterance)\<close>

text \<open>
  A coroutine runs from the state of the world to an outcome. The first component of its
  context is the number of awaits that complete before the task stays suspended
  (\<open>None\<close>: all of them complete).
\<close>

datatype 'a outcome = Normal 'a | Return | Suspended | Raise

type_synonym ctx = "nat option \<times> world"

type_synonym 'a coro = "ctx \<Rightarrow> 'a outcome \<times> ctx"

definition unit_co :: "'a \<Rightarrow> 'a coro" where
  "unit_co x c = (Normal x, c)"

definition return_co :: "'a coro" where
  "return_co c = (Return, c)"

definition raise_co :: "'a coro" where
  "raise_co c = (Raise, c)"

definition bind_co :: "'a coro \<Rightarrow> ('a \<Rightarrow> 'b coro) \<Rightarrow> 'b coro" where
  "bind_co m f c =
     (case m c of
        (Normal x, c1) \<Rightarrow> f x c1
      | (Return, c1) \<Rightarrow> (Return, c1)
      | (Suspended, c1) \<Rightarrow> (Suspended, c1)
      | (Raise, c1) \<Rightarrow> (Raise, c1))"

definition then_co :: "'a coro \<Rightarrow> 'b coro \<Rightarrow> 'b coro" where
  "then_co m n = bind_co m (\<lambda>x. n)"

text \<open>\<open>try: m except Exception: h\<close>.\<close>

definition catch_co :: "'a coro \<Rightarrow> 'a coro \<Rightarrow> 'a coro" where
  "catch_co m h c = (case m c of (Raise, c1) \<Rightarrow> h c1 | r \<Rightarrow> r)"

text \<open>A statement that does not await.\<close>

definition effect :: "(world \<Rightarrow> world) \<Rightarrow> unit coro" where
  "effect f c = (Normal (), (fst c, f (snd c)))"

text \<open>
  An awaited operation: \<open>issue\<close> happens when it starts, \<open>finish\<close> when it finishes
  with the value \<open>v\<close>. With no await left the task stays suspended in it.
\<close>

definition await_co :: "(world \<Rightarrow> world) \<Rightarrow> (world \<Rightarrow> world) \<Rightarrow> 'a \<Rightarrow> 'a coro" where
  "await_co issue finish v c =
     (let w1 = issue (snd c)
      in case fst c of
           None \<Rightarrow> (Normal v, (None, finish w1))
         | Some n \<Rightarrow> if n = 0 then (Suspended, (Some 0, w1))
                     else (Normal v, (Some (n - 1), finish w1)))"

definition send_co :: "event \<Rightarrow> unit coro" where
  "send_co e = await_co (\<lambda>w. w) (send_event e) ()"

definition log_call :: "backend_call \<Rightarrow> world \<Rightarrow> world" where
  "log_call k w = w\<lparr>calls := calls w @ [k]\<rparr>"

definition call_co :: "backend_call \<Rightarrow> 'a \<Rightarrow> 'a coro" where
  "call_co k v = await_co (log_call k) (\<lambda>w. w) v"

text \<open>
  The outcomes of the remote calls of one turn, in the order the pipeline awaits them.
  \<open>rest_stt\<close>, \<open>search_context\<close> and \<open>rest_tts\<close> catch every exception themselves, so
  under \<open>asyncio.wait_for\<close> each returns a value or times out.
\<close>

datatype stt_outcome = SttTimeout | SttText ustr

datatype rag_outcome = RagTimeout | RagContext "ustr option"

datatype tts_outcome = TtsTimeout | TtsResult "bytes option"

record backends =
  stt :: stt_outcome
  rag :: rag_outcome
  llm :: token_stream
  tts_first :: tts_outcome
  tts_retry :: tts_outcome

text \<open>\<open>_pcm_to_wav\<close>: \<open>struct.pack\<close> raises when a field does not fit its format.\<close>

definition le16 :: "nat \<Rightarrow> bytes" where
  "le16 n = [of_nat (n mod 256), of_nat (n div 256 mod 256)]"

definition le32 :: "nat \<Rightarrow> bytes" where
  "le32 n = le16 (n mod 65536) @ le16 (n div 65536 mod 65536)"

definition pcm_to_wav :: "bytes \<Rightarrow> nat \<Rightarrow> nat \<Rightarrow> nat \<Rightarrow> error + bytes" where
  "pcm_to_wav pcm_data sample_rate channels bits =
     (let data_size = length pcm_data
      in if 36 + data_size < 2 ^ 32 \<and> channels < 2 ^ 16 \<and> sample_rate < 2 ^ 32
            \<and> sample_rate * channels * bits div 8 < 2 ^ 32
            \<and> channels * bits div 8 < 2 ^ 16 \<and> bits < 2 ^ 16
         then Inr ([82, 73, 70, 70] @ le32 (36 + data_size) @ [87, 65, 86, 69]
                   @ [102, 109, 116, 32] @ le32 16 @ le16 1 @ le16 channels
                   @ le32 sample_rate @ le32 (sample_rate * channels * bits div 8)
                   @ le16 (channels * bits div 8) @ le16 bits
                   @ [100, 97, 116, 97] @ le32 data_size @ pcm_data)
         else Inl StructError)"

text \<open>\<open>str.isspace\<close> on one code point, and \<open>not transcript or not transcript.strip()\<close>.\<close>

definition py_isspace :: "nat \<Rightarrow> bool" where
  "py_isspace c =
     ((9 \<le> c \<and> c \<le> 13) \<or> (28 \<le> c \<and> c \<le> 32) \<or> c = 133 \<or> c = 160 \<or> c = 5760
      \<or> (8192 \<le> c \<and> c \<le> 8202) \<or> c = 8232 \<or> c = 8233 \<or> c = 8239 \<or> c = 8287
      \<or> c = 12288)"

definition is_blank :: "ustr \<Rightarrow> bool" where
  "is_blank transcript = list_all py_isspace transcript"

text \<open>\<open>if audio_bytes:\<close> holds for bytes that are neither \<open>None\<close> nor empty.\<close>

definition truthy :: "bytes option \<Rightarrow> bool" where
  "truthy a = (case a of None \<Rightarrow> False | Some b \<Rightarrow> b \<noteq> [])"

text \<open>The history keeps its last \<open>MAX_HISTORY_ENTRIES\<close> entries.\<close>

definition cap_history :: "turn list \<Rightarrow> turn list" where
  "cap_history h =
     (if length h > MAX_HISTORY_ENTRIES then drop (length h - MAX_HISTORY_ENTRIES) h else h)"

definition append_turn :: "ustr \<Rightarrow> ustr \<Rightarrow> world \<Rightarrow> world" where
  "append_turn transcript full_response w =
     w\<lparr>conversation_history :=
         cap_history (conversation_history w @ [(User, transcript), (Assistant, full_response)])\<rparr>"

text \<open>The early exit of steps 1: back to LISTENING, a status event, \<open>return\<close>.\<close>

definition abandon_turn :: "real \<Rightarrow> unit coro" where
  "abandon_turn now =
     then_co (effect (set_state now LISTENING)) (then_co (send_co (Status Listening)) return_co)"

text \<open>
  Step 3, the loop over the tokens of \<open>stream_llm\<close>: each iteration awaits the next
  token, leaves the turn when the session is no longer active, and sends the token.
\<close>

fun token_loop :: "ustr list \<Rightarrow> bool \<Rightarrow> ustr \<Rightarrow> ustr coro" where
  "token_loop [] r full_response =
     then_co (await_co (\<lambda>w. w) (\<lambda>w. w) ())
       (if r then raise_co else unit_co full_response)"
| "token_loop (token # rest) r full_response =
     then_co (await_co (\<lambda>w. w) (\<lambda>w. w) ())
       (\<lambda>c. if \<not> is_active (snd c) then return_co c
            else then_co (send_co (Token token))
                   (token_loop rest r (full_response @ token)) c)"

definition llm_stage :: "token_stream \<Rightarrow> ustr coro" where
  "llm_stage ts =
     catch_co (then_co (effect (log_call CallLlm)) (token_loop (yielded ts) (raised ts) []))
       (unit_co APOLOGY)"

text \<open>Step 4: one synthesis call, and one more when the first gave no audio.\<close>

definition tts_stage :: "backends \<Rightarrow> (bytes option) coro" where
  "tts_stage env =
     bind_co (call_co CallTts (tts_first env))
       (\<lambda>r1. let audio_bytes = (case r1 of TtsTimeout \<Rightarrow> None | TtsResult a \<Rightarrow> a)
             in if \<not> truthy audio_bytes
                then bind_co (call_co CallTts (tts_retry env))
                       (\<lambda>r2. unit_co (case r2 of TtsTimeout \<Rightarrow> audio_bytes | TtsResult a \<Rightarrow> a))
                else unit_co audio_bytes)"

text \<open>The end of the turn: the audio or the reset, the history, the timing report.\<close>

definition finish_turn :: "real \<Rightarrow> ustr \<Rightarrow> ustr \<Rightarrow> bytes option \<Rightarrow> unit coro" where
  "finish_turn now transcript full_response audio_bytes =
     then_co
       (if truthy audio_bytes
        then then_co (effect (set_state now AI_SPEAKING)) (send_co (Audio (the audio_bytes)))
        else then_co (effect (set_state now LISTENING)) (send_co (Status Listening)))
       (then_co (effect (append_turn transcript full_response)) (send_co Perf))"

text \<open>Steps 2 to 4, once the transcript is known.\<close>

definition answer_turn :: "real \<Rightarrow> backends \<Rightarrow> ustr \<Rightarrow> unit coro" where
  "answer_turn now env transcript =
     then_co (send_co (Transcript transcript User))
       (then_co (send_co (Status Searching))
          (bind_co (call_co CallRag (rag env))
             (\<lambda>rag_context.
                then_co (send_co (Status Thinking))
                  (bind_co (llm_stage (llm env))
                     (\<lambda>full_response.
                        then_co (send_co (Transcript full_response Assistant))
                          (then_co (send_co (Status Speaking))
                             (bind_co (tts_stage env)
                                (finish_turn now transcript full_response))))))))"

text \<open>The body of the \<open>try\<close> block.\<close>

definition pipeline_body :: "real \<Rightarrow> backends \<Rightarrow> bytes \<Rightarrow> unit coro" where
  "pipeline_body now env audio_data =
     then_co (send_co (Status Transcribing))
       (case pcm_to_wav audio_data 16000 1 16 of
          Inl e \<Rightarrow> raise_co
        | Inr wav_data \<Rightarrow>
            bind_co (call_co CallStt (stt env))
              (\<lambda>r. case r of
                     SttTimeout \<Rightarrow> abandon_turn now
                   | SttText transcript \<Rightarrow>
                       if transcript = [] \<or> is_blank transcript then abandon_turn now
                       else answer_turn now env transcript))"

text \<open>The \<open>except Exception\<close> handler.\<close>

definition pipeline_failed :: "real \<Rightarrow> unit coro" where
  "pipeline_failed now =
     then_co (effect (set_state now LISTENING))
       (then_co (send_co ErrorEvent) (send_co (Status Listening)))"

text \<open>
  \<open>_process_utterance\<close>, run until it ends or stays suspended. The flag says whether the
  task is then inside the \<open>try\<close> block, where \<open>on_cancelled\<close> handles its cancellation.
\<close>

definition process_utterance ::
  "real \<Rightarrow> backends \<Rightarrow> bytes \<Rightarrow> ctx \<Rightarrow> unit outcome \<times> bool \<times> ctx" where
  "process_utterance now env audio_data c =
     (case pipeline_body now env audio_data c of
        (Raise, c1) \<Rightarrow> (case pipeline_failed now c1 of (r, c2) \<Rightarrow> (r, False, c2))
      | (r, c1) \<Rightarrow> (r, True, c1))"


section \<open>The greeting (ws\_handler.py, \_auto\_greet)\<close>

definition GREETING_ON_TIMEOUT :: ustr where
  "GREETING_ON_TIMEOUT = [3112, 3118, 3128, 3149, 3093, 3134, 3120, 3074, 33, 32, 3112,
     3143, 3112, 3137, 32, 3114, 3149, 3120, 3135, 3119, 44, 32, 3118, 3136, 3093, 3137, 32,
     3086, 3122, 3134, 32, 3128, 3129, 3134, 3119, 3074, 32, 3098, 3143, 3119, 3095, 3122,
     3112, 3137, 63]"

definition CALL_STARTED :: ustr where
  "CALL_STARTED = [40, 3093, 3134, 3122, 3149, 32, 3114, 3149, 3120, 3134, 3120, 3074,
     3117, 3118, 3144, 3074, 3110, 3135, 41]"

datatype greeting_outcome = GreetingTimeout | GreetingText ustr

record greet_backends =
  business :: "ustr option"
  greeting :: greeting_outcome
  greet_tts :: "bytes option"

definition append_greeting :: "ustr \<Rightarrow> world \<Rightarrow> world" where
  "append_greeting greeting_text w =
     w\<lparr>conversation_history :=
         conversation_history w @ [(User, CALL_STARTED), (Assistant, greeting_text)]\<rparr>"

definition greet_body :: "real \<Rightarrow> greet_backends \<Rightarrow> unit coro" where
  "greet_body now env =
     then_co (send_co (Status Thinking))
       (bind_co (call_co CallRag (business env))
          (\<lambda>business_context.
             bind_co (call_co CallLlm (greeting env))
               (\<lambda>g. let greeting_text =
                            (case g of GreetingTimeout \<Rightarrow> GREETING_ON_TIMEOUT
                             | GreetingText t \<Rightarrow> t)
                     in then_co (send_co (Transcript greeting_text Assistant))
                          (then_co (send_co (Status Speaking))
                             (bind_co (call_co CallTts (greet_tts env))
                                (\<lambda>audio_bytes.
                                   then_co
                                     (if truthy audio_bytes
                                      then then_co (effect (set_state now AI_SPEAKING))
                                             (send_co (Audio (the audio_bytes)))
                                      else then_co (effect (set_state now LISTENING))
                                             (send_co (Status Listening)))
                                     (effect (append_greeting greeting_text))))))))"

definition auto_greet :: "real \<Rightarrow> greet_backends \<Rightarrow> unit coro" where
  "auto_greet now env =
     catch_co (greet_body now env)
       (then_co (effect (set_state now LISTENING)) (send_co (Status Listening)))"


section \<open>The connection (ws\_handler.py, handle\_voice\_websocket)\<close>

text \<open>The task runs for the first time, until it ends or stays suspended at an await.\<close>

datatype task_env = TurnEnv backends | GreetEnv greet_backends

definition settle :: "nat \<Rightarrow> unit outcome \<Rightarrow> bool \<Rightarrow> world \<Rightarrow> world" where
  "settle i r guarded w =
     w\<lparr>tasks := (tasks w)
         [i := (tasks w ! i)\<lparr>status := (if r = Suspended then TaskPending else TaskFinished),
                             started := True, in_try := guarded\<rparr>]\<rparr>"

definition run_task :: "real \<Rightarrow> nat \<Rightarrow> task_env \<Rightarrow> nat option \<Rightarrow> world \<Rightarrow> world" where
  "run_task now i env budget w =
     (if i < length (tasks w) \<and> status (tasks w ! i) = TaskPending \<and> \<not> started (tasks w ! i)
      then
        (case (kind (tasks w ! i), env) of
           (Utterance audio_data, TurnEnv e) \<Rightarrow>
             (case process_utterance now e audio_data (budget, w) of
                (r, guarded, c) \<Rightarrow> settle i r guarded (snd c))
         | (Greet, GreetEnv g) \<Rightarrow>
             (case auto_greet now g (budget, w) of (r, c) \<Rightarrow> settle i r False (snd c))
         | _ \<Rightarrow> w)
      else w)"

text \<open>
  The frames of the browser. A text frame is read with \<open>json.loads\<close> and dispatched on
  its type; one that is not a JSON object makes \<open>json.loads\<close> or \<open>data.get\<close> raise. The
  data of an audio message is base64 text: absent or empty, text that \<open>b64decode\<close>
  rejects, or text that encodes some bytes (possibly none). A binary frame carries the
  audio bytes. A message of another type is ignored.
\<close>

datatype audio_b64 = NoData | BadBase64 | Base64 bytes

datatype inbound =
    AudioMsg audio_b64
  | BinaryMsg bytes
  | ConfigMsg
  | PlaybackDoneMsg
  | UserInterruptMsg
  | PongMsg
  | EndMsg
  | OtherMsg
  | NotJsonMsg

text \<open>The \<open>finally\<close> block: the task is cancelled but not awaited.\<close>

definition teardown :: "real \<Rightarrow> world \<Rightarrow> world" where
  "teardown now w =
     (let w1 = w\<lparr>is_active := False\<rparr>
      in case processing_task w1 of
           None \<Rightarrow> w1
         | Some i \<Rightarrow> if \<not> task_done w1 i then cancel_task now i w1 else w1)"

text \<open>The \<open>if\<close>/\<open>elif\<close> chain on the message type.\<close>

definition dispatch :: "real \<Rightarrow> inbound \<Rightarrow> world \<Rightarrow> error + world" where
  "dispatch now m w =
     (case m of
        AudioMsg audio_b64 \<Rightarrow>
          (case audio_b64 of
             NoData \<Rightarrow> Inr w
           | BadBase64 \<Rightarrow> Inl DecodeError
           | Base64 audio_bytes \<Rightarrow> handle_audio_chunk now audio_bytes w)
      | BinaryMsg audio_bytes \<Rightarrow> handle_audio_chunk now audio_bytes w
      | ConfigMsg \<Rightarrow> Inr w
      | PlaybackDoneMsg \<Rightarrow> Inr (send_event (Status Listening) (handle_playback_done now w))
      | UserInterruptMsg \<Rightarrow> Inr (handle_user_interrupt w)
      | PongMsg \<Rightarrow> Inr w
      | EndMsg \<Rightarrow> Inr (teardown now w)
      | OtherMsg \<Rightarrow> Inr w
      | NotJsonMsg \<Rightarrow> Inl MessageError)"

text \<open>One turn of the receive loop: the watchdog runs before the message is handled.\<close>

definition on_message :: "real \<Rightarrow> inbound \<Rightarrow> world \<Rightarrow> error + world" where
  "on_message now m w = dispatch now m (check_watchdog now w)"

text \<open>The receive timeout: a ping and the watchdog.\<close>

definition on_idle :: "real \<Rightarrow> world \<Rightarrow> world" where
  "on_idle now w = check_watchdog now (send_event Ping w)"

text \<open>The session is created in GREETING and its greeting task is started.\<close>

definition connect :: "real \<Rightarrow> world" where
  "connect now = create_task Greet (new_session now)"

text \<open>
  What happens on a connection, one occurrence after the other. The receive loop runs
  \<open>while session.is_active\<close>: once it has been left by the end message, whose cleanup
  clears the flag, nothing more is received, while the tasks of the event loop go on. An
  exception leaves the loop as well, and the run ends with it.
\<close>

datatype occurrence =
    Received real inbound
  | Idle real
  | TaskRuns real nat task_env "nat option"

fun occur :: "occurrence \<Rightarrow> world \<Rightarrow> error + world" where
  "occur (Received now m) w = (if is_active w then on_message now m w else Inr w)"
| "occur (Idle now) w = (if is_active w then Inr (on_idle now w) else Inr w)"
| "occur (TaskRuns now i env budget) w = Inr (run_task now i env budget w)"

fun run :: "occurrence list \<Rightarrow> world \<Rightarrow> error + world" where
  "run [] w = Inr w"
| "run (x # xs) w = (case occur x w of Inl e \<Rightarrow> Inl e | Inr w1 \<Rightarrow> run xs w1)"

text \<open>The tasks of the session that are in flight.\<close>

definition in_flight :: "world \<Rightarrow> nat list" where
  "in_flight w = filter (\<lambda>i. status (tasks w ! i) = TaskPending) [0..<length (tasks w)]"


section \<open>Frame sequences\<close>

text \<open>The detector applied to successive frames: the classifications, in order.\<close>

fun detect_all ::
  "real \<Rightarrow> bytes list \<Rightarrow> 'a session_scheme \<Rightarrow> error + (vad list \<times> 'a session_scheme)" where
  "detect_all now [] s = Inr ([], s)"
| "detect_all now (f # fs) s =
     (case detect_speech now f s of
        Inl e \<Rightarrow> Inl e
      | Inr (v, s1) \<Rightarrow>
          (case detect_all now fs s1 of
             Inl e \<Rightarrow> Inl e
           | Inr (vs, s2) \<Rightarrow> Inr (v # vs, s2)))"

text \<open>A frame whose RMS does not exceed the speech threshold, and one that exceeds the barge-in threshold.\<close>

definition quiet_frame :: "bytes \<Rightarrow> bool" where
  "quiet_frame f = (case calculate_rms f of Inl e \<Rightarrow> False | Inr rms \<Rightarrow> \<not> rms > SPEECH_THRESHOLD)"

definition loud_frame :: "bytes \<Rightarrow> bool" where
  "loud_frame f = (case calculate_rms f of Inl e \<Rightarrow> False | Inr rms \<Rightarrow> rms > BARGE_IN_THRESHOLD)"

text \<open>
  Sample frames: one silent sample, one loud sample (4112), and 4096 loud samples (8192
  bytes, the minimum utterance length).
\<close>

definition quiet2 :: bytes where "quiet2 = [0, 0]"
definition loud2 :: bytes where "loud2 = [16, 16]"
definition loud8192 :: bytes where "loud8192 = replicate (2 * 4096) 16"

section \<open>Observations and sample runs\<close>

text \<open>A projection of the world a run ends in; \<open>None\<close> when the run raised.\<close>

definition after :: "(world \<Rightarrow> 'a) \<Rightarrow> error + world \<Rightarrow> 'a option" where
  "after f r = (case r of Inl e \<Rightarrow> None | Inr w \<Rightarrow> Some (f w))"

text \<open>What the detector says of a frame in a given world.\<close>

definition classify :: "real \<Rightarrow> bytes \<Rightarrow> world \<Rightarrow> vad option" where
  "classify now f w = (case detect_speech now f w of Inl e \<Rightarrow> None | Inr r \<Rightarrow> Some (fst r))"

text \<open>
  The transitions of the state table of the specification that an audio frame can
  trigger.
\<close>

definition table_audio :: "SessionState \<Rightarrow> SessionState \<Rightarrow> bool" where
  "table_audio s s' =
     ((s = LISTENING \<and> s' = USER_SPEAKING) \<or> (s = USER_SPEAKING \<and> s' = PROCESSING)
      \<or> (s = USER_SPEAKING \<and> s' = LISTENING) \<or> (s = AI_SPEAKING \<and> s' = USER_SPEAKING)
      \<or> (s = GREETING \<and> s' = USER_SPEAKING))"

text \<open>Sessions in a given state, for the per-message properties.\<close>

definition processing_world :: world where
  "processing_world = set_state 0 PROCESSING (new_session 0)"

definition speaking_session :: world where
  "speaking_session =
     (set_state 0 USER_SPEAKING (new_session 0))\<lparr>is_speaking := True, speech_frames := 2\<rparr>"

text \<open>Backends that answer: a greeting with audio, and a turn with transcript, reply and audio.\<close>

definition greet_ok :: greet_backends where
  "greet_ok = \<lparr>business = None, greeting = GreetingText [104, 105], greet_tts = Some [1, 2]\<rparr>"

definition turn_ok :: backends where
  "turn_ok = \<lparr>stt = SttText [104, 105], rag = RagContext None,
              llm = \<lparr>yielded = [[111, 107]], raised = False\<rparr>,
              tts_first = TtsResult (Some [1, 2]), tts_retry = TtsTimeout\<rparr>"

text \<open>
  The greeting is spoken and its playback reported; then one loud frame and four silent
  ones (a burst of 256 ms), or two loud frames and four silent ones (512 ms of speech in
  10 bytes).
\<close>

definition greeted :: "occurrence list" where
  "greeted = [TaskRuns 1 0 (GreetEnv greet_ok) None, Received 5 PlaybackDoneMsg]"

definition burst_head :: "occurrence list" where
  "burst_head = greeted @ [Received 6 (BinaryMsg loud2), Received 7 (BinaryMsg quiet2),
     Received 8 (BinaryMsg quiet2), Received 9 (BinaryMsg quiet2)]"

definition tiny_head :: "occurrence list" where
  "tiny_head = greeted @ [Received 6 (BinaryMsg loud2), Received 7 (BinaryMsg loud2),
     Received 8 (BinaryMsg quiet2), Received 9 (BinaryMsg quiet2),
     Received 10 (BinaryMsg quiet2)]"

text \<open>
  The user interrupts the greeting (three loud frames, the third of 8192 bytes), goes on
  for one frame and stops; the pipeline of that utterance starts and waits for the
  transcription.
\<close>

definition first_turn_started :: "occurrence list" where
  "first_turn_started =
     [TaskRuns 1 0 (GreetEnv greet_ok) None,
      Received 2 (BinaryMsg loud2), Received 3 (BinaryMsg loud2),
      Received 4 (BinaryMsg loud8192), Received 5 (BinaryMsg loud2),
      Received 6 (BinaryMsg quiet2), Received 7 (BinaryMsg quiet2),
      Received 8 (BinaryMsg quiet2), Received 9 (BinaryMsg quiet2),
      TaskRuns 9 1 (TurnEnv turn_ok) (Some 1)]"

text \<open>Then the browser reports the end of the greeting's playback, and the user speaks again.\<close>

definition second_turn_started :: "occurrence list" where
  "second_turn_started =
     first_turn_started @
     [Received 10 PlaybackDoneMsg,
      Received 11 (BinaryMsg loud8192), Received 12 (BinaryMsg loud2),
      Received 13 (BinaryMsg quiet2), Received 14 (BinaryMsg quiet2),
      Received 15 (BinaryMsg quiet2), Received 16 (BinaryMsg quiet2)]"

text \<open>
  Two loud frames during the greeting's playback, whose end is never reported: the
  watchdog resets the session after 30 s. The next turn is answered.
\<close>

definition second_answer_playing :: "occurrence list" where
  "second_answer_playing =
     [TaskRuns 1 0 (GreetEnv greet_ok) None,
      Received 2 (BinaryMsg loud2), Received 3 (BinaryMsg loud2),
      Received 40 (BinaryMsg quiet2),
      Received 41 (BinaryMsg loud8192), Received 42 (BinaryMsg loud2),
      Received 43 (BinaryMsg quiet2), Received 44 (BinaryMsg quiet2),
      Received 45 (BinaryMsg quiet2), Received 46 (BinaryMsg quiet2),
      TaskRuns 47 1 (TurnEnv turn_ok) None]"

section \<open>Notions for the properties of a turn\<close>

text \<open>The reply the pipeline keeps for a token stream, and the audio of the synthesis stage.\<close>

definition reply_of :: "token_stream \<Rightarrow> ustr" where
  "reply_of ts = (if raised ts then APOLOGY else concat (yielded ts))"

definition first_audio :: "backends \<Rightarrow> bytes option" where
  "first_audio env = (case tts_first env of TtsTimeout \<Rightarrow> None | TtsResult a \<Rightarrow> a)"

definition final_audio :: "backends \<Rightarrow> bytes option" where
  "final_audio env =
     (if truthy (first_audio env) then first_audio env
      else (case tts_retry env of TtsTimeout \<Rightarrow> first_audio env | TtsResult a \<Rightarrow> a))"

text \<open>The transcript reaches the later stages: it is neither empty nor blank, and the audio fits a WAV header.\<close>

definition transcribed :: "backends \<Rightarrow> bytes \<Rightarrow> ustr \<Rightarrow> bool" where
  "transcribed env audio_data transcript =
     (stt env = SttText transcript \<and> transcript \<noteq> [] \<and> \<not> is_blank transcript
      \<and> 36 + length audio_data < 2 ^ 32)"

text \<open>The history is as before, or one whole turn was appended to it.\<close>

definition turn_appended :: "turn list \<Rightarrow> turn list \<Rightarrow> bool" where
  "turn_appended h h' =
     (h' = h \<or> (\<exists>t r. h' = cap_history (h @ [(User, t), (Assistant, r)])))"

text \<open>A coroutine that leaves the history alone; one that appends at most a whole turn.\<close>

definition hist_kept :: "'a coro \<Rightarrow> bool" where
  "hist_kept m =
     (\<forall>c. conversation_history (snd (snd (m c))) = conversation_history (snd c))"

definition hist_ok :: "'a coro \<Rightarrow> bool" where
  "hist_ok m =
     (\<forall>c. turn_appended (conversation_history (snd c)) (conversation_history (snd (snd (m c)))))"

text \<open>A coroutine that leaves an observation \<open>p\<close> of the world as it was.\<close>

definition kept :: "(world \<Rightarrow> 'b) \<Rightarrow> 'a coro \<Rightarrow> bool" where
  "kept p m = (\<forall>c. p (snd (snd (m c))) = p (snd c))"

text \<open>An observation that no event sent, call logged, state change or history update alters.\<close>

definition untouched :: "(world \<Rightarrow> 'b) \<Rightarrow> bool" where
  "untouched p =
     ((\<forall>e w. p (send_event e w) = p w) \<and> (\<forall>k w. p (log_call k w) = p w) \<and>
      (\<forall>now s w. p (set_state now s w) = p w) \<and> (\<forall>t r w. p (append_turn t r w) = p w))"

text \<open>A coroutine that makes at most \<open>n\<close> synthesis calls, whatever else it calls.\<close>

definition tts_calls :: "nat \<Rightarrow> 'a coro \<Rightarrow> bool" where
  "tts_calls n m =
     (\<forall>c. \<exists>cs. calls (snd (snd (m c))) = calls (snd c) @ cs \<and> count_list cs CallTts \<le> n)"

text \<open>Sample backends: the synthesis fails twice; the streaming call is refused and so is the fallback.\<close>

definition turn_mute :: backends where
  "turn_mute = turn_ok\<lparr>tts_first := TtsTimeout, tts_retry := TtsTimeout\<rparr>"

definition turn_refused :: backends where
  "turn_refused =
     turn_ok\<lparr>llm := fst (stream_llm (Response 400 EndOfStream [] EndOfStream) FallbackStatusNot200)\<rparr>"

text \<open>
  Sample backends: the transcription gives no text; the streaming call is refused and the
  fallback answers with a text.
\<close>

definition turn_silent :: backends where
  "turn_silent = turn_ok\<lparr>stt := SttText []\<rparr>"

definition turn_fallback :: backends where
  "turn_fallback =
     turn_ok\<lparr>llm := fst (stream_llm (Response 400 EndOfStream [] EndOfStream)
                              (FallbackContent [121, 111]))\<rparr>"

text \<open>
  The user interrupts the greeting and speaks, and the end of the greeting's playback is
  reported while the pipeline of that utterance is in flight. The user speaks again (two
  loud frames); then the pipeline ends with an empty transcription, which puts the session
  in LISTENING while the detector is still speaking. Three silent frames follow.
\<close>

definition listening_while_speaking :: "occurrence list" where
  "listening_while_speaking =
     [TaskRuns 1 0 (GreetEnv greet_ok) None,
      Received 2 (BinaryMsg loud2), Received 3 (BinaryMsg loud2),
      Received 4 (BinaryMsg loud8192), Received 5 (BinaryMsg loud2),
      Received 6 (BinaryMsg quiet2), Received 7 (BinaryMsg quiet2),
      Received 8 (BinaryMsg quiet2), Received 9 (BinaryMsg quiet2),
      Received 10 PlaybackDoneMsg,
      Received 11 (BinaryMsg loud8192), Received 12 (BinaryMsg loud2),
      TaskRuns 13 1 (TurnEnv turn_silent) None,
      Received 14 (BinaryMsg quiet2), Received 15 (BinaryMsg quiet2),
      Received 16 (BinaryMsg quiet2)]"

text \<open>A session that listens, and one whose pipeline task was just created.\<close>

definition listening_world :: world where
  "listening_world = set_state 0 LISTENING (new_session 0)"

definition turn_created :: world where
  "turn_created = create_task (Utterance loud2) (processing_world\<lparr>barge_in_frames := 2\<rparr>)"

section \<open>Properties of the frame analysis and the detector\<close>

lemma calculate_rms_short: "length bs < 2 \<Longrightarrow> calculate_rms bs = Inr 0"
  by (simp add: calculate_rms_def)

lemma calculate_rms_odd:
  assumes "odd (length bs)" "3 \<le> length bs"
  shows "calculate_rms bs = Inl StructError"
proof -
  have "length bs \<noteq> 2 * (length bs div 2)" using assms(1) by presburger
  then show ?thesis using assms(2) by (simp add: calculate_rms_def unpack_h_def)
qed

lemma length_samples_of: "length (samples_of bs) = length bs div 2"
  by (induction bs rule: samples_of.induct) simp_all

lemma calculate_rms_even:
  assumes "even (length bs)" "2 \<le> length bs"
  shows "calculate_rms bs =
         Inr (sqrt (real_of_int (sum_list (map (\<lambda>s. s * s) (samples_of bs))) / real (length bs div 2)))"
proof -
  have e: "length bs = 2 * (length bs div 2)" using assms(1) by presburger
  have ne: "samples_of bs \<noteq> []"
  proof
    assume "samples_of bs = []"
    then have "length (samples_of bs) = 0" by simp
    then show False using assms(2) by (simp add: length_samples_of)
  qed
  have "unpack_h (length bs div 2) bs = Inr (samples_of bs)"
    using e by (simp add: unpack_h_def)
  then show ?thesis using assms(2) ne by (simp add: calculate_rms_def length_samples_of)
qed

lemma calculate_rms_pair: "calculate_rms [lo, hi] = Inr \<bar>real_of_int (sample_le lo hi)\<bar>"
proof -
  have "calculate_rms [lo, hi] = Inr (sqrt (real_of_int (sample_le lo hi * sample_le lo hi)))"
    by (simp add: calculate_rms_even)
  also have "sqrt (real_of_int (sample_le lo hi * sample_le lo hi)) = \<bar>real_of_int (sample_le lo hi)\<bar>"
    by (simp add: real_sqrt_mult)
  finally show ?thesis .
qed

lemma samples_of_replicate: "samples_of (replicate (2 * n) b) = replicate n (sample_le b b)"
  by (induction n) simp_all

lemma calculate_rms_replicate:
  assumes "0 < n"
  shows "calculate_rms (replicate (2 * n) b) = Inr \<bar>real_of_int (sample_le b b)\<bar>"
proof -
  let ?x = "sample_le b b"
  have ss: "sum_list (map (\<lambda>s. s * s) (samples_of (replicate (2 * n) b))) = int n * (?x * ?x)"
    by (simp add: samples_of_replicate sum_list_replicate)
  have ev: "even (length (replicate (2 * n) b))" "2 \<le> length (replicate (2 * n) b)"
    using assms by simp_all
  have "calculate_rms (replicate (2 * n) b) =
        Inr (sqrt (real_of_int (int n * (?x * ?x)) / real (length (replicate (2 * n) b) div 2)))"
    by (simp only: calculate_rms_even [OF ev] ss)
  also have "real_of_int (int n * (?x * ?x)) / real (length (replicate (2 * n) b) div 2)
             = real_of_int ?x * real_of_int ?x"
    using assms by simp
  also have "sqrt (real_of_int ?x * real_of_int ?x) = \<bar>real_of_int ?x\<bar>"
    by (simp add: real_sqrt_mult)
  finally show ?thesis .
qed

lemma sample_quiet: "sample_le 0 0 = 0"
  by (simp add: sample_le_def)

lemma sample_loud: "sample_le 16 16 = 4112"
  by (simp add: sample_le_def)

lemma sample_neg: "sample_le 0 128 = -32768"
  by (simp add: sample_le_def)

lemma rms_quiet2: "calculate_rms quiet2 = Inr 0"
  by (simp add: quiet2_def calculate_rms_pair sample_quiet)

lemma rms_loud2: "calculate_rms loud2 = Inr 4112"
  by (simp add: loud2_def calculate_rms_pair sample_loud)

lemma rms_loud8192: "calculate_rms loud8192 = Inr 4112"
  unfolding loud8192_def by (subst calculate_rms_replicate) (simp_all add: sample_loud)

lemma length_loud8192: "length loud8192 = 8192"
  by (simp add: loud8192_def)

lemmas thresholds = SPEECH_THRESHOLD_def SILENCE_DURATION_MS_def MIN_SPEECH_DURATION_MS_def
  FRAME_DURATION_MS_def MIN_AUDIO_BYTES_def BARGE_IN_THRESHOLD_def MIN_BARGE_IN_FRAMES_def
  PLAYBACK_COOLDOWN_MS_def WATCHDOG_TIMEOUT_S_def GREETING_TIMEOUT_S_def MAX_HISTORY_ENTRIES_def

lemma detect_speech_quiet_continue:
  assumes "calculate_rms audio_bytes = Inr rms" "\<not> rms > SPEECH_THRESHOLD" "is_speaking s"
    "(silence_frames s + 1) * FRAME_DURATION_MS < SILENCE_DURATION_MS"
  shows "detect_speech now audio_bytes s =
         Inr (speech_continue, s\<lparr>chunk_count := chunk_count s + 1, silence_frames := silence_frames s + 1\<rparr>)"
  using assms by (simp add: detect_speech_def Let_def)

lemma detect_speech_quiet_end:
  assumes "calculate_rms audio_bytes = Inr rms" "\<not> rms > SPEECH_THRESHOLD" "is_speaking s"
    "\<not> (silence_frames s + 1) * FRAME_DURATION_MS < SILENCE_DURATION_MS"
    "speech_frames s * FRAME_DURATION_MS \<ge> MIN_SPEECH_DURATION_MS"
  shows "detect_speech now audio_bytes s =
         Inr (speech_end, s\<lparr>chunk_count := chunk_count s + 1, silence_frames := 0,
                            is_speaking := False, speech_frames := 0\<rparr>)"
  using assms by (simp add: detect_speech_def Let_def)

lemma detect_speech_quiet_short:
  assumes "calculate_rms audio_bytes = Inr rms" "\<not> rms > SPEECH_THRESHOLD" "is_speaking s"
    "\<not> (silence_frames s + 1) * FRAME_DURATION_MS < SILENCE_DURATION_MS"
    "\<not> speech_frames s * FRAME_DURATION_MS \<ge> MIN_SPEECH_DURATION_MS"
  shows "detect_speech now audio_bytes s =
         Inr (silence, s\<lparr>chunk_count := chunk_count s + 1, silence_frames := 0,
                          is_speaking := False, speech_frames := 0, audio_buffer := []\<rparr>)"
  using assms by (simp add: detect_speech_def Let_def)

lemma detect_speech_quiet_idle:
  assumes "calculate_rms audio_bytes = Inr rms" "\<not> rms > SPEECH_THRESHOLD" "\<not> is_speaking s"
  shows "detect_speech now audio_bytes s =
         Inr (silence, s\<lparr>chunk_count := chunk_count s + 1, silence_frames := silence_frames s + 1\<rparr>)"
  using assms by (simp add: detect_speech_def Let_def)

lemma quiet_frameD: "quiet_frame f \<Longrightarrow> \<exists>rms. calculate_rms f = Inr rms \<and> \<not> rms > SPEECH_THRESHOLD"
  by (auto simp: quiet_frame_def split: sum.splits)

lemma detect_all_idle:
  assumes "list_all quiet_frame fs" "\<not> is_speaking s"
  shows "\<exists>vs s'. detect_all now fs s = Inr (vs, s') \<and> count_list vs speech_end = 0"
  using assms
proof (induction fs arbitrary: s)
  case Nil
  then show ?case by simp
next
  case (Cons f fs)
  from Cons.prems obtain rms where r: "calculate_rms f = Inr rms" "\<not> rms > SPEECH_THRESHOLD"
    using quiet_frameD by auto
  let ?s1 = "s\<lparr>chunk_count := chunk_count s + 1, silence_frames := silence_frames s + 1\<rparr>"
  have d: "detect_speech now f s = Inr (silence, ?s1)"
    using r Cons.prems(2) by (rule detect_speech_quiet_idle)
  have "\<not> is_speaking ?s1" using Cons.prems(2) by simp
  with Cons.IH [of ?s1] Cons.prems(1) obtain vs s' where
    "detect_all now fs ?s1 = Inr (vs, s')" "count_list vs speech_end = 0" by auto
  then show ?case by (simp add: d)
qed

lemma detect_all_speaking:
  assumes "list_all quiet_frame fs" "is_speaking s"
  shows "\<exists>vs s'. detect_all now fs s = Inr (vs, s') \<and>
           count_list vs speech_end =
             (if fs \<noteq> []
                 \<and> \<not> (silence_frames s + int (length fs)) * FRAME_DURATION_MS < SILENCE_DURATION_MS
                 \<and> speech_frames s * FRAME_DURATION_MS \<ge> MIN_SPEECH_DURATION_MS
              then 1 else 0)"
  using assms
proof (induction fs arbitrary: s)
  case Nil
  then show ?case by simp
next
  case (Cons f fs)
  from Cons.prems obtain rms where r: "calculate_rms f = Inr rms" "\<not> rms > SPEECH_THRESHOLD"
    using quiet_frameD by auto
  have q: "list_all quiet_frame fs" using Cons.prems(1) by simp
  show ?case
  proof (cases "(silence_frames s + 1) * FRAME_DURATION_MS < SILENCE_DURATION_MS")
    case True
    let ?s1 = "s\<lparr>chunk_count := chunk_count s + 1, silence_frames := silence_frames s + 1\<rparr>"
    have d: "detect_speech now f s = Inr (speech_continue, ?s1)"
      using r Cons.prems(2) True by (rule detect_speech_quiet_continue)
    have "is_speaking ?s1" using Cons.prems(2) by simp
    from Cons.IH [OF q this] obtain vs s' where
      a: "detect_all now fs ?s1 = Inr (vs, s')" and
      b: "count_list vs speech_end =
             (if fs \<noteq> []
                 \<and> \<not> (silence_frames ?s1 + int (length fs)) * FRAME_DURATION_MS < SILENCE_DURATION_MS
                 \<and> speech_frames ?s1 * FRAME_DURATION_MS \<ge> MIN_SPEECH_DURATION_MS
              then 1 else 0)" by blast
    have c: "silence_frames ?s1 + int (length fs) = silence_frames s + int (length (f # fs))"
      by simp
    show ?thesis
    proof (cases "fs = []")
      case True
      with a b have "vs = []" "count_list vs speech_end = 0" by auto
      with a True \<open>(silence_frames s + 1) * FRAME_DURATION_MS < SILENCE_DURATION_MS\<close>
      show ?thesis by (simp add: d)
    next
      case False
      with a b show ?thesis unfolding c by (simp add: d)
    qed
  next
    case False
    then have reach: "\<not> (silence_frames s + int (length (f # fs))) * FRAME_DURATION_MS < SILENCE_DURATION_MS"
      by (simp add: thresholds)
    show ?thesis
    proof (cases "speech_frames s * FRAME_DURATION_MS \<ge> MIN_SPEECH_DURATION_MS")
      case True
      let ?s1 = "s\<lparr>chunk_count := chunk_count s + 1, silence_frames := 0,
                            is_speaking := False, speech_frames := 0\<rparr>"
      have d: "detect_speech now f s = Inr (speech_end, ?s1)"
        using r Cons.prems(2) False True by (rule detect_speech_quiet_end)
      have "\<not> is_speaking ?s1" by simp
      from detect_all_idle [OF q this] obtain vs s' where
        "detect_all now fs ?s1 = Inr (vs, s')" "count_list vs speech_end = 0" by blast
      then show ?thesis using reach True by (simp add: d)
    next
      case short: False
      let ?s1 = "s\<lparr>chunk_count := chunk_count s + 1, silence_frames := 0,
                          is_speaking := False, speech_frames := 0, audio_buffer := []\<rparr>"
      have d: "detect_speech now f s = Inr (silence, ?s1)"
        using r Cons.prems(2) False short by (rule detect_speech_quiet_short)
      have "\<not> is_speaking ?s1" by simp
      from detect_all_idle [OF q this] obtain vs s' where
        "detect_all now fs ?s1 = Inr (vs, s')" "count_list vs speech_end = 0" by blast
      then show ?thesis using short by (simp add: d)
    qed
  qed
qed

section \<open>Properties of the audio gate\<close>

lemmas world_ops = set_state_def send_event_def create_task_def task_done_def in_cooldown_def
  on_cancelled_def cancel_task_def interrupt_ai_def handle_playback_done_def
  handle_user_interrupt_def check_watchdog_def log_call_def

lemma handle_audio_chunk_processing:
  "state w = PROCESSING \<Longrightarrow> handle_audio_chunk now audio_bytes w = Inr w"
  by (simp add: handle_audio_chunk_def)

lemma handle_audio_chunk_cooldown:
  "state w = LISTENING \<or> state w = USER_SPEAKING \<Longrightarrow> in_cooldown now w \<Longrightarrow>
   handle_audio_chunk now audio_bytes w = Inr w"
  by (auto simp: handle_audio_chunk_def)

lemma handle_audio_chunk_muted_error:
  "state w = AI_SPEAKING \<or> state w = GREETING \<Longrightarrow> calculate_rms audio_bytes = Inl e \<Longrightarrow>
   handle_audio_chunk now audio_bytes w = Inl e"
  by (auto simp: handle_audio_chunk_def)

lemma handle_audio_chunk_vad_error:
  "state w = LISTENING \<or> state w = USER_SPEAKING \<Longrightarrow> \<not> in_cooldown now w \<Longrightarrow>
   calculate_rms audio_bytes = Inl e \<Longrightarrow>
   handle_audio_chunk now audio_bytes w = Inl e"
  by (auto simp: handle_audio_chunk_def detect_speech_def)

lemma handle_audio_chunk_vad:
  "state w = LISTENING \<or> state w = USER_SPEAKING \<Longrightarrow> \<not> in_cooldown now w \<Longrightarrow>
   detect_speech now audio_bytes w = Inr (v, w1) \<Longrightarrow>
   handle_audio_chunk now audio_bytes w =
     (case v of
        speech_start \<Rightarrow>
          Inr ((send_event (Vad True) (set_state now USER_SPEAKING w1))\<lparr>audio_buffer := audio_bytes\<rparr>)
      | speech_continue \<Rightarrow>
          Inr (if is_speaking w1 then w1\<lparr>audio_buffer := audio_buffer w1 @ audio_bytes\<rparr> else w1)
      | speech_end \<Rightarrow>
          (if length (audio_buffer w1) < MIN_AUDIO_BYTES
           then Inr (set_state now LISTENING ((send_event (Vad False) w1)\<lparr>audio_buffer := []\<rparr>))
           else Inr (create_task (Utterance (audio_buffer w1))
                       ((set_state now PROCESSING (send_event (Vad False) w1))\<lparr>audio_buffer := []\<rparr>)))
      | silence \<Rightarrow> Inr w1)"
  by (auto simp: handle_audio_chunk_def Let_def send_event_def set_state_def split: vad.splits)

text \<open>
  C10 (amended): \<open>_calculate_rms\<close> returns 0 for an input shorter than two bytes and raises
  for every input of odd length at least 3. \<open>handle_audio_chunk\<close> raises on such a chunk
  whenever it analyses the chunk: in AI\_SPEAKING and GREETING, and in LISTENING and
  USER\_SPEAKING outside the playback cooldown. In PROCESSING, and during the cooldown, it
  returns with the session unchanged, whatever the chunk.
\<close>

theorem odd_chunk_raises_when_analysed:
  "(length audio_bytes < 2 \<longrightarrow> calculate_rms audio_bytes = Inr 0) \<and>
   (odd (length audio_bytes) \<and> 3 \<le> length audio_bytes \<longrightarrow>
      calculate_rms audio_bytes = Inl StructError) \<and>
   (odd (length audio_bytes) \<and> 3 \<le> length audio_bytes \<and>
    (state w = AI_SPEAKING \<or> state w = GREETING \<or>
     ((state w = LISTENING \<or> state w = USER_SPEAKING) \<and> \<not> in_cooldown now w)) \<longrightarrow>
      handle_audio_chunk now audio_bytes w = Inl StructError) \<and>
   (state w = PROCESSING \<or> ((state w = LISTENING \<or> state w = USER_SPEAKING) \<and> in_cooldown now w) \<longrightarrow>
      handle_audio_chunk now audio_bytes w = Inr w)"
proof (intro conjI impI)
  assume "length audio_bytes < 2"
  then show "calculate_rms audio_bytes = Inr 0" by (rule calculate_rms_short)
next
  assume "odd (length audio_bytes) \<and> 3 \<le> length audio_bytes"
  then show "calculate_rms audio_bytes = Inl StructError" by (simp add: calculate_rms_odd)
next
  assume a: "odd (length audio_bytes) \<and> 3 \<le> length audio_bytes \<and>
    (state w = AI_SPEAKING \<or> state w = GREETING \<or>
     ((state w = LISTENING \<or> state w = USER_SPEAKING) \<and> \<not> in_cooldown now w))"
  then have e: "calculate_rms audio_bytes = Inl StructError" by (simp add: calculate_rms_odd)
  from a have "state w = AI_SPEAKING \<or> state w = GREETING \<or>
     ((state w = LISTENING \<or> state w = USER_SPEAKING) \<and> \<not> in_cooldown now w)" by simp
  then show "handle_audio_chunk now audio_bytes w = Inl StructError"
    using e handle_audio_chunk_muted_error [of w audio_bytes StructError now]
      handle_audio_chunk_vad_error [of w now audio_bytes StructError] by blast
next
  assume "state w = PROCESSING \<or> ((state w = LISTENING \<or> state w = USER_SPEAKING) \<and> in_cooldown now w)"
  then show "handle_audio_chunk now audio_bytes w = Inr w"
    using handle_audio_chunk_processing [of w now audio_bytes]
      handle_audio_chunk_cooldown [of w now audio_bytes] by blast
qed


text \<open>
  C10 (as stated): \<open>handle_audio_chunk\<close> raises on any audio chunk of odd length. A chunk of
  three bytes makes \<open>_calculate_rms\<close> raise, but while the session is in PROCESSING the
  chunk is dropped before its RMS is computed and the method returns; and a chunk of one
  byte has RMS 0 and is counted as a silent frame.
\<close>

theorem odd_chunk_ignored_while_processing:
  "calculate_rms [1, 2, 3] = Inl StructError \<and>
   handle_audio_chunk 1 [1, 2, 3] processing_world = Inr processing_world \<and>
   handle_audio_chunk 1 [1] (new_session 0) = Inr ((new_session 0)\<lparr>chunk_count := 1\<rparr>)"
  by (simp add: calculate_rms_odd calculate_rms_short handle_audio_chunk_def processing_world_def
      set_state_def new_session_def BARGE_IN_THRESHOLD_def)

theorem odd_chunk_raises_when_analysed_witness:
  "calculate_rms [1] = Inr 0 \<and>
   calculate_rms [1, 2, 3] = Inl StructError \<and>
   handle_audio_chunk 1 [1, 2, 3] (new_session 0) = Inl StructError \<and>
   handle_audio_chunk 1 [1, 2, 3] (set_state 0 LISTENING (new_session 0)) = Inl StructError \<and>
   handle_audio_chunk 1 [1, 2, 3] (set_state 0 PROCESSING (new_session 0)) = Inr (set_state 0 PROCESSING (new_session 0))"
  using odd_chunk_raises_when_analysed [of "[1]" "new_session 0" 1]
    odd_chunk_raises_when_analysed [of "[1, 2, 3]" "new_session 0" 1]
    odd_chunk_raises_when_analysed [of "[1, 2, 3]" "set_state 0 LISTENING (new_session 0)" 1]
    odd_chunk_raises_when_analysed [of "[1, 2, 3]" "set_state 0 PROCESSING (new_session 0)" 1]
  by (simp add: new_session_def set_state_def in_cooldown_def)

text \<open>
  C6: a frame whose RMS is at most the speech threshold, processed while the detector is
  speaking, increments the silence counter. While the accumulated silence stays below
  1000 ms the frame is \<open>speech_continue\<close>. Once it reaches 1000 ms speaking stops and the
  counters are reset: the frame is \<open>speech_end\<close> when the accumulated speech is at least
  300 ms, otherwise the buffer is cleared and the frame is \<open>silence\<close>. Over a run of such
  frames \<open>speech_end\<close> is produced exactly once when the silence reaches the threshold
  and the speech was long enough, and never otherwise.
\<close>

theorem vad_silence_counting:
  "(calculate_rms audio_bytes = Inr rms \<and> rms \<le> SPEECH_THRESHOLD \<and> is_speaking s \<longrightarrow>
      (\<exists>v s'. detect_speech now audio_bytes s = Inr (v, s') \<and>
         (if (silence_frames s + 1) * FRAME_DURATION_MS < SILENCE_DURATION_MS
          then v = speech_continue \<and> silence_frames s' = silence_frames s + 1 \<and> is_speaking s'
               \<and> speech_frames s' = speech_frames s \<and> audio_buffer s' = audio_buffer s
          else \<not> is_speaking s' \<and> silence_frames s' = 0 \<and> speech_frames s' = 0 \<and>
               (if speech_frames s * FRAME_DURATION_MS \<ge> MIN_SPEECH_DURATION_MS
                then v = speech_end \<and> audio_buffer s' = audio_buffer s
                else v = silence \<and> audio_buffer s' = [])))) \<and>
   (list_all quiet_frame fs \<and> is_speaking s \<longrightarrow>
      (\<exists>vs s'. detect_all now fs s = Inr (vs, s') \<and>
         count_list vs speech_end =
           (if fs \<noteq> []
               \<and> (silence_frames s + int (length fs)) * FRAME_DURATION_MS \<ge> SILENCE_DURATION_MS
               \<and> speech_frames s * FRAME_DURATION_MS \<ge> MIN_SPEECH_DURATION_MS
            then 1 else 0)))"
proof (intro conjI impI)
  assume a: "calculate_rms audio_bytes = Inr rms \<and> rms \<le> SPEECH_THRESHOLD \<and> is_speaking s"
  then have r: "calculate_rms audio_bytes = Inr rms" "\<not> rms > SPEECH_THRESHOLD" "is_speaking s"
    by auto
  show "\<exists>v s'. detect_speech now audio_bytes s = Inr (v, s') \<and>
         (if (silence_frames s + 1) * FRAME_DURATION_MS < SILENCE_DURATION_MS
          then v = speech_continue \<and> silence_frames s' = silence_frames s + 1 \<and> is_speaking s'
               \<and> speech_frames s' = speech_frames s \<and> audio_buffer s' = audio_buffer s
          else \<not> is_speaking s' \<and> silence_frames s' = 0 \<and> speech_frames s' = 0 \<and>
               (if speech_frames s * FRAME_DURATION_MS \<ge> MIN_SPEECH_DURATION_MS
                then v = speech_end \<and> audio_buffer s' = audio_buffer s
                else v = silence \<and> audio_buffer s' = []))"
  proof (cases "(silence_frames s + 1) * FRAME_DURATION_MS < SILENCE_DURATION_MS")
    case True
    with r show ?thesis by (simp add: detect_speech_quiet_continue [OF r True])
  next
    case False
    show ?thesis
    proof (cases "speech_frames s * FRAME_DURATION_MS \<ge> MIN_SPEECH_DURATION_MS")
      case True
      with False show ?thesis by (simp add: detect_speech_quiet_end [OF r False True])
    next
      case short: False
      with False show ?thesis by (simp add: detect_speech_quiet_short [OF r False short])
    qed
  qed
next
  assume "list_all quiet_frame fs \<and> is_speaking s"
  then have "list_all quiet_frame fs" "is_speaking s" by auto
  from detect_all_speaking [OF this, of now]
  show "\<exists>vs s'. detect_all now fs s = Inr (vs, s') \<and>
         count_list vs speech_end =
           (if fs \<noteq> []
               \<and> (silence_frames s + int (length fs)) * FRAME_DURATION_MS \<ge> SILENCE_DURATION_MS
               \<and> speech_frames s * FRAME_DURATION_MS \<ge> MIN_SPEECH_DURATION_MS
            then 1 else 0)"
    by (simp add: not_less)
qed

lemma quiet_frame_quiet2: "quiet_frame quiet2"
  by (simp add: quiet_frame_def rms_quiet2 SPEECH_THRESHOLD_def)

theorem vad_silence_counting_witness:
  "calculate_rms quiet2 = Inr 0 \<and> is_speaking speaking_session \<and>
   list_all quiet_frame [quiet2, quiet2, quiet2, quiet2, quiet2] \<and>
   (\<exists>s'. detect_speech 1 quiet2 speaking_session = Inr (speech_continue, s')
          \<and> silence_frames s' = 1) \<and>
   (\<exists>s'. detect_speech 1 quiet2 (speaking_session\<lparr>silence_frames := 3\<rparr>) = Inr (speech_end, s')
          \<and> \<not> is_speaking s') \<and>
   (\<exists>vs s'. detect_all 1 [quiet2, quiet2, quiet2, quiet2, quiet2] speaking_session = Inr (vs, s')
          \<and> count_list vs speech_end = 1)"
proof -
  have s: "is_speaking speaking_session" "silence_frames speaking_session = 0"
    "speech_frames speaking_session = 2"
    by (simp_all add: speaking_session_def set_state_def new_session_def)
  have q: "list_all quiet_frame [quiet2, quiet2, quiet2, quiet2, quiet2]"
    by (simp add: quiet_frame_quiet2)
  show ?thesis
    using vad_silence_counting [of quiet2 0 speaking_session 1 "[quiet2, quiet2, quiet2, quiet2, quiet2]"]
      vad_silence_counting [of quiet2 0 "speaking_session\<lparr>silence_frames := 3\<rparr>" 1 "[]"]
      s q
    by (simp add: rms_quiet2 thresholds) blast
qed

text \<open>
  C2 (amended): in USER\_SPEAKING, outside the cooldown, let a frame at or below the speech
  threshold bring the accumulated silence to 1000 ms. If the accumulated speech is below
  300 ms the detector yields \<open>silence\<close> and the buffered audio is discarded, with no event
  sent and no task started. If the speech is at least 300 ms but fewer than 8192 bytes are
  buffered, the detector yields \<open>speech_end\<close>, a \<open>vad speaking=false\<close> event is sent, the
  buffered audio is discarded and the session goes to LISTENING, with no task started.
\<close>

theorem short_utterance_end:
  assumes "state w = USER_SPEAKING" "\<not> in_cooldown now w" "is_speaking w"
    "calculate_rms audio_bytes = Inr rms" "rms \<le> SPEECH_THRESHOLD"
    "(silence_frames w + 1) * FRAME_DURATION_MS \<ge> SILENCE_DURATION_MS"
  shows "(speech_frames w * FRAME_DURATION_MS < MIN_SPEECH_DURATION_MS \<longrightarrow>
            (\<exists>w'. detect_speech now audio_bytes w = Inr (silence, w') \<and>
                   handle_audio_chunk now audio_bytes w = Inr w' \<and>
                   audio_buffer w' = [] \<and> \<not> is_speaking w' \<and> sent w' = sent w \<and>
                   tasks w' = tasks w)) \<and>
         (speech_frames w * FRAME_DURATION_MS \<ge> MIN_SPEECH_DURATION_MS \<and>
          length (audio_buffer w) < MIN_AUDIO_BYTES \<longrightarrow>
            (\<exists>w1 w'. detect_speech now audio_bytes w = Inr (speech_end, w1) \<and>
                   handle_audio_chunk now audio_bytes w = Inr w' \<and>
                   audio_buffer w' = [] \<and> \<not> is_speaking w' \<and> state w' = LISTENING \<and>
                   sent w' = sent w @ [Vad False] \<and> tasks w' = tasks w))"
proof (intro conjI impI)
  have r: "calculate_rms audio_bytes = Inr rms" "\<not> rms > SPEECH_THRESHOLD" "is_speaking w"
    "\<not> (silence_frames w + 1) * FRAME_DURATION_MS < SILENCE_DURATION_MS"
    using assms by auto
  have g: "state w = LISTENING \<or> state w = USER_SPEAKING" using assms(1) by simp
  {
    assume "speech_frames w * FRAME_DURATION_MS < MIN_SPEECH_DURATION_MS"
    then have short: "\<not> speech_frames w * FRAME_DURATION_MS \<ge> MIN_SPEECH_DURATION_MS" by simp
    note d = detect_speech_quiet_short [OF r short, of now]
    show "\<exists>w'. detect_speech now audio_bytes w = Inr (silence, w') \<and>
                   handle_audio_chunk now audio_bytes w = Inr w' \<and>
                   audio_buffer w' = [] \<and> \<not> is_speaking w' \<and> sent w' = sent w \<and>
                   tasks w' = tasks w"
      by (simp add: d handle_audio_chunk_vad [OF g assms(2) d])
  }
  {
    assume "speech_frames w * FRAME_DURATION_MS \<ge> MIN_SPEECH_DURATION_MS \<and>
          length (audio_buffer w) < MIN_AUDIO_BYTES"
    then have long: "speech_frames w * FRAME_DURATION_MS \<ge> MIN_SPEECH_DURATION_MS"
      and small: "length (audio_buffer w) < MIN_AUDIO_BYTES" by auto
    note d = detect_speech_quiet_end [OF r long, of now]
    show "\<exists>w1 w'. detect_speech now audio_bytes w = Inr (speech_end, w1) \<and>
                   handle_audio_chunk now audio_bytes w = Inr w' \<and>
                   audio_buffer w' = [] \<and> \<not> is_speaking w' \<and> state w' = LISTENING \<and>
                   sent w' = sent w @ [Vad False] \<and> tasks w' = tasks w"
      using small by (simp add: d handle_audio_chunk_vad [OF g assms(2) d] set_state_def send_event_def)
  }
qed

section \<open>Runs of a connection\<close>

lemmas co_defs = unit_co_def return_co_def raise_co_def bind_co_def then_co_def catch_co_def
  effect_def await_co_def send_co_def call_co_def

lemmas turn_defs = pipeline_body_def answer_turn_def finish_turn_def tts_stage_def llm_stage_def
  abandon_turn_def pipeline_failed_def process_utterance_def append_turn_def cap_history_def
  truthy_def is_blank_def pcm_to_wav_def py_isspace_def

lemmas greet_defs = greet_body_def auto_greet_def append_greeting_def greet_ok_def

lemmas loop_defs = on_message_def on_idle_def dispatch_def run_task_def settle_def teardown_def
  connect_def new_session_def

lemma length_quiet2: "length quiet2 = 2" by (simp add: quiet2_def)
lemma length_loud2: "length loud2 = 2" by (simp add: loud2_def)

lemmas frame_defs = handle_audio_chunk_def detect_speech_def rms_loud2 rms_quiet2 rms_loud8192
  length_loud8192 length_quiet2 length_loud2 thresholds Let_def

lemmas run_defs = loop_defs greet_defs co_defs world_ops frame_defs turn_defs turn_ok_def

lemma run_append: "run (xs @ ys) w = (case run xs w of Inl e \<Rightarrow> Inl e | Inr w1 \<Rightarrow> run ys w1)"
  by (induction xs arbitrary: w) (auto split: sum.splits)

text \<open>
  C2 (as stated): an utterance that ends too short yields \<open>silence\<close>, not \<open>speech_end\<close>,
  and the session goes to LISTENING. After the greeting, one loud frame and three silent
  ones leave the session in USER\_SPEAKING; the fourth silent frame is classified
  \<open>silence\<close> (256 ms of speech) and the session is still in USER\_SPEAKING. With two
  loud frames (512 ms of speech, 10 bytes buffered) the closing frame is classified
  \<open>speech_end\<close>, and it is the byte-length test of the handler that sends the session
  to LISTENING.
\<close>

theorem short_burst_stays_user_speaking:
  "after state (run burst_head (connect 0)) = Some USER_SPEAKING \<and>
   after (classify 10 quiet2) (run burst_head (connect 0)) = Some (Some silence) \<and>
   after state (run (burst_head @ [Received 10 (BinaryMsg quiet2)]) (connect 0))
     = Some USER_SPEAKING \<and>
   after (classify 11 quiet2) (run tiny_head (connect 0)) = Some (Some speech_end) \<and>
   after state (run (tiny_head @ [Received 11 (BinaryMsg quiet2)]) (connect 0))
     = Some LISTENING"
  by (simp add: after_def classify_def burst_head_def tiny_head_def greeted_def run_defs)

theorem short_utterance_end_witness:
  "(\<exists>w'. detect_speech 1 quiet2 (speaking_session\<lparr>silence_frames := 3, speech_frames := 1\<rparr>)
            = Inr (silence, w') \<and>
          handle_audio_chunk 1 quiet2 (speaking_session\<lparr>silence_frames := 3, speech_frames := 1\<rparr>)
            = Inr w' \<and> audio_buffer w' = []) \<and>
   (\<exists>w'. handle_audio_chunk 1 quiet2 (speaking_session\<lparr>silence_frames := 3\<rparr>) = Inr w' \<and>
          audio_buffer w' = [] \<and> state w' = LISTENING \<and> sent w' = [Vad False])"
proof -
  let ?a = "speaking_session\<lparr>silence_frames := 3, speech_frames := 1\<rparr>"
  let ?b = "speaking_session\<lparr>silence_frames := 3\<rparr>"
  have a: "state ?a = USER_SPEAKING" "\<not> in_cooldown 1 ?a" "is_speaking ?a"
    "calculate_rms quiet2 = Inr 0" "(0::real) \<le> SPEECH_THRESHOLD"
    "(silence_frames ?a + 1) * FRAME_DURATION_MS \<ge> SILENCE_DURATION_MS"
    by (simp_all add: speaking_session_def set_state_def new_session_def in_cooldown_def
        rms_quiet2 thresholds)
  have b: "state ?b = USER_SPEAKING" "\<not> in_cooldown 1 ?b" "is_speaking ?b"
    "(silence_frames ?b + 1) * FRAME_DURATION_MS \<ge> SILENCE_DURATION_MS"
    by (simp_all add: speaking_session_def set_state_def new_session_def in_cooldown_def
        thresholds)
  have c: "speech_frames ?a * FRAME_DURATION_MS < MIN_SPEECH_DURATION_MS"
    "speech_frames ?b * FRAME_DURATION_MS \<ge> MIN_SPEECH_DURATION_MS"
    "length (audio_buffer ?b) < MIN_AUDIO_BYTES" "sent ?b = []"
    by (simp_all add: speaking_session_def set_state_def new_session_def thresholds)
  from short_utterance_end [OF a] short_utterance_end [OF b(1,2,3) a(4,5) b(4)] c
  show ?thesis by (simp del: One_nat_def) blast
qed

text \<open>
  C3: a session has at most one pipeline task in flight. The code starts the task of an
  utterance without looking at the task it holds. The user interrupts the greeting and
  speaks; the pipeline of that utterance waits for its transcription (PROCESSING, task 1
  in flight); the browser reports the end of the greeting's playback, which puts the
  session in LISTENING; the user speaks again. The second utterance starts task 2 while
  task 1 is still pending: it was neither cancelled nor awaited, and the session's handle
  now points to task 2 only.
\<close>

theorem two_pipelines_in_flight:
  "after state (run first_turn_started (connect 0)) = Some PROCESSING \<and>
   after in_flight (run first_turn_started (connect 0)) = Some [1] \<and>
   after (\<lambda>w. map status (tasks w)) (run second_turn_started (connect 0))
     = Some [TaskFinished, TaskPending, TaskPending] \<and>
   after in_flight (run second_turn_started (connect 0)) = Some [1, 2] \<and>
   after processing_task (run second_turn_started (connect 0)) = Some (Some 2)"
  by (simp add: after_def in_flight_def first_turn_started_def second_turn_started_def run_defs
      upt_rec)

text \<open>
  C4: fewer than three consecutive frames above the barge-in threshold never trigger a
  barge-in. The counter of loud frames is reset by a quiet frame in AI\_SPEAKING or
  GREETING, by a barge-in and by a playback report, but not when the watchdog or the
  task leaves the muted state. Two loud frames during the greeting's playback, a watchdog
  reset and a full turn later, the session is in AI\_SPEAKING with the counter still at 2:
  the first loud frame of the new answer, coming after four silent frames, interrupts it.
\<close>

theorem barge_in_after_one_loud_frame:
  "after state (run second_answer_playing (connect 0)) = Some AI_SPEAKING \<and>
   after barge_in_frames (run second_answer_playing (connect 0)) = Some 2 \<and>
   after (\<lambda>w. count_list (sent w) Interrupt) (run second_answer_playing (connect 0)) = Some 0 \<and>
   after state (run (second_answer_playing @ [Received 48 (BinaryMsg loud2)]) (connect 0))
     = Some USER_SPEAKING \<and>
   after (\<lambda>w. count_list (sent w) Interrupt)
     (run (second_answer_playing @ [Received 48 (BinaryMsg loud2)]) (connect 0)) = Some 1"
  by (simp add: after_def second_answer_playing_def run_defs)

section \<open>The barge-in gate\<close>

lemma barge_in_resets:
  assumes "state w = AI_SPEAKING \<or> state w = GREETING" "calculate_rms f = Inr rms"
    "\<not> rms > BARGE_IN_THRESHOLD"
  shows "handle_audio_chunk now f w = Inr (w\<lparr>chunk_count := chunk_count w + 1, barge_in_frames := 0\<rparr>)"
  using assms by (auto simp: handle_audio_chunk_def Let_def)

lemma barge_in_counts:
  assumes "state w = AI_SPEAKING \<or> state w = GREETING" "calculate_rms f = Inr rms"
    "rms > BARGE_IN_THRESHOLD" "barge_in_frames w + 1 < MIN_BARGE_IN_FRAMES"
  shows "handle_audio_chunk now f w =
         Inr (w\<lparr>chunk_count := chunk_count w + 1, barge_in_frames := barge_in_frames w + 1\<rparr>)"
  using assms by (auto simp: handle_audio_chunk_def Let_def)

lemma interrupt_ai_fields:
  "sent (interrupt_ai now w) = sent w @ [Interrupt, Status Listening]"
  "conversation_history (interrupt_ai now w) = conversation_history w"
  "chunk_count (interrupt_ai now w) = chunk_count w"
  "barge_in_frames (interrupt_ai now w) = barge_in_frames w"
  "calls (interrupt_ai now w) = calls w"
  "is_active (interrupt_ai now w) = is_active w"
  by (auto simp: interrupt_ai_def Let_def world_ops split: option.splits task_kind.splits)

lemma interrupt_ai_cancels:
  assumes "processing_task w = Some i" "\<not> task_done w i"
  shows "processing_task (interrupt_ai now w) = None"
    "status (tasks (interrupt_ai now w) ! i) = TaskCancelled"
  using assms
  by (auto simp: interrupt_ai_def Let_def world_ops split: option.splits task_kind.splits)

lemma barge_in_fires:
  assumes "state w = AI_SPEAKING \<or> state w = GREETING" "calculate_rms f = Inr rms"
    "rms > BARGE_IN_THRESHOLD" "barge_in_frames w + 1 \<ge> MIN_BARGE_IN_FRAMES"
  shows "\<exists>w'. handle_audio_chunk now f w = Inr w' \<and> state w' = USER_SPEAKING \<and>
           audio_buffer w' = f \<and> is_speaking w' \<and> speech_frames w' = 1 \<and>
           silence_frames w' = 0 \<and> barge_in_frames w' = 0 \<and>
           sent w' = sent w @ [Interrupt, Status Listening, Vad True] \<and>
           conversation_history w' = conversation_history w \<and>
           (case processing_task w of
              None \<Rightarrow> tasks w' = tasks w
            | Some i \<Rightarrow> if task_done w i then tasks w' = tasks w \<and> processing_task w' = Some i
                        else processing_task w' = None \<and> status (tasks w' ! i) = TaskCancelled)"
proof -
  let ?w2 = "w\<lparr>chunk_count := chunk_count w + 1, barge_in_frames := 0\<rparr>"
  let ?w3 = "interrupt_ai now ?w2"
  let ?w' = "send_event (Vad True) (set_state now USER_SPEAKING
               (?w3\<lparr>audio_buffer := f, is_speaking := True, speech_frames := 1, silence_frames := 0\<rparr>))"
  have h: "handle_audio_chunk now f w = Inr ?w'"
    using assms by (auto simp: handle_audio_chunk_def Let_def)
  have t: "task_done ?w2 = task_done w" by (simp add: task_done_def fun_eq_iff)
  have tk: "(case processing_task w of
              None \<Rightarrow> tasks ?w3 = tasks w
            | Some i \<Rightarrow> if task_done w i then tasks ?w3 = tasks w \<and> processing_task ?w3 = Some i
                        else processing_task ?w3 = None \<and> status (tasks ?w3 ! i) = TaskCancelled)"
  proof (cases "processing_task w")
    case None
    then show ?thesis by (simp add: interrupt_ai_def world_ops)
  next
    case (Some i)
    show ?thesis
    proof (cases "task_done w i")
      case True
      with Some t show ?thesis by (simp add: interrupt_ai_def send_event_def)
    next
      case False
      then have "\<not> task_done ?w2 i" by (simp add: t)
      moreover have "processing_task ?w2 = Some i" using Some by simp
      ultimately show ?thesis using Some False interrupt_ai_cancels [of ?w2 i now] by simp
    qed
  qed
  show ?thesis
    unfolding h
    using tk by (simp add: interrupt_ai_fields set_state_def send_event_def split: option.splits)
qed

section \<open>Invariants of the pipeline\<close>

lemma hist_keptD:
  assumes "hist_kept m" "m c = (r, c1)"
  shows "conversation_history (snd c1) = conversation_history (snd c)"
proof -
  from assms(1) have "conversation_history (snd (snd (m c))) = conversation_history (snd c)"
    unfolding hist_kept_def by blast
  then show ?thesis by (simp add: assms(2))
qed

lemma hist_okD:
  assumes "hist_ok m" "m c = (r, c1)"
  shows "turn_appended (conversation_history (snd c)) (conversation_history (snd c1))"
proof -
  from assms(1) have "turn_appended (conversation_history (snd c)) (conversation_history (snd (snd (m c))))"
    unfolding hist_ok_def by blast
  then show ?thesis by (simp add: assms(2))
qed

lemma hist_kept_unit: "hist_kept (unit_co x)"
  by (simp add: hist_kept_def unit_co_def)

lemma hist_kept_return: "hist_kept return_co"
  by (simp add: hist_kept_def return_co_def)

lemma hist_kept_raise: "hist_kept raise_co"
  by (simp add: hist_kept_def raise_co_def)

lemma hist_kept_effect:
  "(\<And>w. conversation_history (f w) = conversation_history w) \<Longrightarrow> hist_kept (effect f)"
  by (simp add: hist_kept_def effect_def)

lemma hist_kept_await:
  "(\<And>w. conversation_history (issue w) = conversation_history w) \<Longrightarrow>
   (\<And>w. conversation_history (finish w) = conversation_history w) \<Longrightarrow>
   hist_kept (await_co issue finish v)"
  by (simp add: hist_kept_def await_co_def Let_def split: option.splits)

lemma hist_kept_send: "hist_kept (send_co e)"
  unfolding send_co_def by (rule hist_kept_await) (simp_all add: send_event_def)

lemma hist_kept_call: "hist_kept (call_co k v)"
  unfolding call_co_def by (rule hist_kept_await) (simp_all add: log_call_def)

lemma hist_kept_set_state: "hist_kept (effect (set_state now s))"
  by (rule hist_kept_effect) (simp add: set_state_def)

lemma hist_kept_log: "hist_kept (effect (log_call k))"
  by (rule hist_kept_effect) (simp add: log_call_def)

lemma hist_kept_bind:
  assumes "hist_kept m" "\<And>x. hist_kept (f x)"
  shows "hist_kept (bind_co m f)"
  unfolding hist_kept_def
proof
  fix c
  obtain r c1 where mc: "m c = (r, c1)" by (cases "m c")
  have h1: "conversation_history (snd c1) = conversation_history (snd c)"
    using assms(1) mc by (rule hist_keptD)
  show "conversation_history (snd (snd (bind_co m f c))) = conversation_history (snd c)"
  proof (cases r)
    case (Normal x)
    have "conversation_history (snd (snd (f x c1))) = conversation_history (snd c1)"
      using assms(2) [of x] unfolding hist_kept_def by blast
    with Normal mc h1 show ?thesis by (simp add: bind_co_def)
  qed (use mc h1 in \<open>simp_all add: bind_co_def\<close>)
qed

lemma hist_kept_then: "hist_kept m \<Longrightarrow> hist_kept n \<Longrightarrow> hist_kept (then_co m n)"
  unfolding then_co_def by (rule hist_kept_bind)

lemma hist_kept_catch:
  assumes "hist_kept m" "hist_kept h"
  shows "hist_kept (catch_co m h)"
  unfolding hist_kept_def
proof
  fix c
  obtain r c1 where mc: "m c = (r, c1)" by (cases "m c")
  have h1: "conversation_history (snd c1) = conversation_history (snd c)"
    using assms(1) mc by (rule hist_keptD)
  have h2: "conversation_history (snd (snd (h c1))) = conversation_history (snd c1)"
    using assms(2) unfolding hist_kept_def by blast
  show "conversation_history (snd (snd (catch_co m h c))) = conversation_history (snd c)"
    using mc h1 h2 by (cases r) (simp_all add: catch_co_def)
qed

lemma hist_kept_if: "hist_kept m \<Longrightarrow> hist_kept n \<Longrightarrow> hist_kept (\<lambda>c. if P c then m c else n c)"
  by (simp add: hist_kept_def)

lemma hist_kept_token_loop: "hist_kept (token_loop ts r acc)"
proof (induction ts arbitrary: acc)
  case Nil
  show ?case
    by (cases r) (simp_all add: hist_kept_then hist_kept_await hist_kept_raise hist_kept_unit)
next
  case (Cons t ts)
  have "hist_kept (\<lambda>c. if \<not> is_active (snd c) then return_co c
            else then_co (send_co (Token t)) (token_loop ts r (acc @ t)) c)"
    by (rule hist_kept_if) (simp_all add: hist_kept_return hist_kept_then hist_kept_send Cons.IH)
  then show ?case by (simp add: hist_kept_then hist_kept_await)
qed

lemma hist_kept_llm_stage: "hist_kept (llm_stage ts)"
  unfolding llm_stage_def
  by (intro hist_kept_catch hist_kept_then hist_kept_log hist_kept_token_loop hist_kept_unit)

lemma hist_kept_tts_stage: "hist_kept (tts_stage env)"
  unfolding tts_stage_def Let_def
  by (intro hist_kept_bind hist_kept_call) (simp add: hist_kept_bind hist_kept_call hist_kept_unit)

lemma hist_kept_abandon: "hist_kept (abandon_turn now)"
  unfolding abandon_turn_def
  by (intro hist_kept_then hist_kept_set_state hist_kept_send hist_kept_return)

lemma hist_kept_failed: "hist_kept (pipeline_failed now)"
  unfolding pipeline_failed_def
  by (intro hist_kept_then hist_kept_set_state hist_kept_send)

lemma hist_ok_kept: "hist_kept m \<Longrightarrow> hist_ok m"
  by (simp add: hist_kept_def hist_ok_def turn_appended_def)

lemma hist_ok_bind:
  assumes "hist_kept m" "\<And>x. hist_ok (f x)"
  shows "hist_ok (bind_co m f)"
  unfolding hist_ok_def
proof
  fix c
  obtain r c1 where mc: "m c = (r, c1)" by (cases "m c")
  have h1: "conversation_history (snd c1) = conversation_history (snd c)"
    using assms(1) mc by (rule hist_keptD)
  show "turn_appended (conversation_history (snd c)) (conversation_history (snd (snd (bind_co m f c))))"
  proof (cases r)
    case (Normal x)
    have "turn_appended (conversation_history (snd c1)) (conversation_history (snd (snd (f x c1))))"
      using assms(2) [of x] unfolding hist_ok_def by blast
    with Normal mc h1 show ?thesis by (simp add: bind_co_def)
  qed (use mc h1 in \<open>simp_all add: bind_co_def turn_appended_def\<close>)
qed

lemma hist_ok_then: "hist_kept m \<Longrightarrow> hist_ok n \<Longrightarrow> hist_ok (then_co m n)"
  unfolding then_co_def by (rule hist_ok_bind)

lemma hist_ok_append: "hist_ok (then_co (effect (append_turn t r)) (send_co Perf))"
  by (auto simp: hist_ok_def turn_appended_def then_co_def bind_co_def effect_def send_co_def
      await_co_def append_turn_def send_event_def Let_def split: option.splits)

lemma hist_ok_finish: "hist_ok (finish_turn now t r a)"
  unfolding finish_turn_def
  by (intro hist_ok_then hist_ok_append)
     (simp add: hist_kept_then hist_kept_set_state hist_kept_send)

lemma hist_ok_answer: "hist_ok (answer_turn now env t)"
  unfolding answer_turn_def
  by (intro hist_ok_then hist_ok_bind hist_kept_send hist_kept_call hist_kept_llm_stage
      hist_kept_tts_stage hist_ok_finish)

lemma hist_ok_body: "hist_ok (pipeline_body now env audio_data)"
  unfolding pipeline_body_def
  apply (rule hist_ok_then [OF hist_kept_send])
  apply (cases "pcm_to_wav audio_data 16000 1 16")
   apply (simp add: hist_ok_kept hist_kept_raise)
  apply simp
  apply (rule hist_ok_bind [OF hist_kept_call])
  apply (simp add: hist_ok_kept hist_kept_abandon hist_ok_answer split: stt_outcome.splits)
  done

lemma process_utterance_history:
  assumes "process_utterance now env audio_data (b, w) = (r, g, (b', w'))"
  shows "turn_appended (conversation_history w) (conversation_history w')"
proof -
  obtain r1 c1 where bc: "pipeline_body now env audio_data (b, w) = (r1, c1)"
    by (cases "pipeline_body now env audio_data (b, w)")
  have h1: "turn_appended (conversation_history w) (conversation_history (snd c1))"
    using hist_okD [OF hist_ok_body bc] by simp
  have h2: "conversation_history (snd (snd (pipeline_failed now c1))) = conversation_history (snd c1)"
    using hist_kept_failed [of now] unfolding hist_kept_def by blast
  show ?thesis
    using assms bc h1 h2
    by (cases r1) (auto simp: process_utterance_def split: prod.splits)
qed

lemma tts_callsD:
  assumes "tts_calls n m" "m c = (r, c1)"
  shows "\<exists>cs. calls (snd c1) = calls (snd c) @ cs \<and> count_list cs CallTts \<le> n"
proof -
  from assms(1)
  have "\<exists>cs. calls (snd (snd (m c))) = calls (snd c) @ cs \<and> count_list cs CallTts \<le> n"
    unfolding tts_calls_def by blast
  then show ?thesis by (simp add: assms(2))
qed

lemma tts_callsI:
  assumes "\<And>c. \<exists>cs. calls (snd (snd (m c))) = calls (snd c) @ cs \<and> count_list cs CallTts \<le> n"
  shows "tts_calls n m"
  unfolding tts_calls_def using assms by blast

lemma tts_calls_mono: "tts_calls a m \<Longrightarrow> a \<le> n \<Longrightarrow> tts_calls n m"
  unfolding tts_calls_def by (meson order_trans)

lemma tts_calls_unit: "tts_calls 0 (unit_co x)"
  by (rule tts_callsI) (simp add: unit_co_def)

lemma tts_calls_return: "tts_calls 0 return_co"
  by (rule tts_callsI) (simp add: return_co_def)

lemma tts_calls_raise: "tts_calls 0 raise_co"
  by (rule tts_callsI) (simp add: raise_co_def)

lemma tts_calls_effect:
  "(\<And>w. calls (f w) = calls w) \<Longrightarrow> tts_calls 0 (effect f)"
  by (rule tts_callsI) (simp add: effect_def)

lemma tts_calls_set_state: "tts_calls 0 (effect (set_state now s))"
  by (rule tts_calls_effect) (simp add: set_state_def)

lemma tts_calls_append_turn: "tts_calls 0 (effect (append_turn t r))"
  by (rule tts_calls_effect) (simp add: append_turn_def)

lemma tts_calls_log_llm: "tts_calls 0 (effect (log_call CallLlm))"
proof (rule tts_callsI)
  fix c :: ctx
  have "calls (snd (snd (effect (log_call CallLlm) c))) = calls (snd c) @ [CallLlm]"
    by (simp add: effect_def log_call_def)
  moreover have "count_list [CallLlm] CallTts \<le> 0" by simp
  ultimately show "\<exists>cs. calls (snd (snd (effect (log_call CallLlm) c))) = calls (snd c) @ cs
                      \<and> count_list cs CallTts \<le> 0"
    by blast
qed

lemma tts_calls_await:
  "(\<And>w. calls (issue w) = calls w) \<Longrightarrow> (\<And>w. calls (finish w) = calls w) \<Longrightarrow>
   tts_calls 0 (await_co issue finish v)"
  by (rule tts_callsI) (simp add: await_co_def Let_def split: option.splits)

lemma tts_calls_send: "tts_calls 0 (send_co e)"
  unfolding send_co_def by (rule tts_calls_await) (simp_all add: send_event_def)

lemma calls_call_co:
  "calls (snd (snd (call_co k v c))) = calls (snd c) @ [k]"
  by (simp add: call_co_def await_co_def log_call_def Let_def split: option.splits)

lemma tts_calls_call: "tts_calls (if k = CallTts then 1 else 0) (call_co k v)"
proof (rule tts_callsI)
  fix c :: ctx
  have "count_list [k] CallTts \<le> (if k = CallTts then 1 else 0)" by simp
  with calls_call_co [of k v c]
  show "\<exists>cs. calls (snd (snd (call_co k v c))) = calls (snd c) @ cs
          \<and> count_list cs CallTts \<le> (if k = CallTts then 1 else 0)"
    by blast
qed

lemma tts_calls_call_other: "k \<noteq> CallTts \<Longrightarrow> tts_calls 0 (call_co k v)"
  using tts_calls_call [of k v] by simp

lemma tts_calls_call_tts: "tts_calls 1 (call_co CallTts v)"
  using tts_calls_call [of CallTts v] by simp

lemma tts_calls_bind:
  assumes "tts_calls a m" "\<And>x. tts_calls b (f x)" "a + b \<le> n"
  shows "tts_calls n (bind_co m f)"
proof (rule tts_callsI)
  fix c
  obtain r c1 where mc: "m c = (r, c1)" by (cases "m c")
  from tts_callsD [OF assms(1) mc] obtain cs1
    where c1: "calls (snd c1) = calls (snd c) @ cs1" "count_list cs1 CallTts \<le> a" by blast
  show "\<exists>cs. calls (snd (snd (bind_co m f c))) = calls (snd c) @ cs \<and> count_list cs CallTts \<le> n"
  proof (cases r)
    case (Normal x)
    obtain r2 c2 where fc: "f x c1 = (r2, c2)" by (cases "f x c1")
    from tts_callsD [OF assms(2) fc] obtain cs2
      where c2: "calls (snd c2) = calls (snd c1) @ cs2" "count_list cs2 CallTts \<le> b" by blast
    have e: "calls (snd (snd (bind_co m f c))) = calls (snd c) @ (cs1 @ cs2)"
      using Normal mc fc c1(1) c2(1) by (simp add: bind_co_def)
    have "count_list (cs1 @ cs2) CallTts \<le> n" using c1(2) c2(2) assms(3) by simp
    with e show ?thesis by blast
  next
    case Return
    have e: "calls (snd (snd (bind_co m f c))) = calls (snd c) @ cs1"
      using Return mc c1(1) by (simp add: bind_co_def)
    have "count_list cs1 CallTts \<le> n" using c1(2) assms(3) by simp
    with e show ?thesis by blast
  next
    case Suspended
    have e: "calls (snd (snd (bind_co m f c))) = calls (snd c) @ cs1"
      using Suspended mc c1(1) by (simp add: bind_co_def)
    have "count_list cs1 CallTts \<le> n" using c1(2) assms(3) by simp
    with e show ?thesis by blast
  next
    case Raise
    have e: "calls (snd (snd (bind_co m f c))) = calls (snd c) @ cs1"
      using Raise mc c1(1) by (simp add: bind_co_def)
    have "count_list cs1 CallTts \<le> n" using c1(2) assms(3) by simp
    with e show ?thesis by blast
  qed
qed

lemma tts0_bind: "tts_calls 0 m \<Longrightarrow> (\<And>x. tts_calls n (f x)) \<Longrightarrow> tts_calls n (bind_co m f)"
  by (rule tts_calls_bind [of 0 m n f n]) simp_all

lemma tts0_then: "tts_calls 0 m \<Longrightarrow> tts_calls n k \<Longrightarrow> tts_calls n (then_co m k)"
  unfolding then_co_def by (rule tts0_bind)

lemma tts_calls_catch:
  assumes "tts_calls 0 m" "tts_calls 0 h"
  shows "tts_calls 0 (catch_co m h)"
proof (rule tts_callsI)
  fix c
  obtain r c1 where mc: "m c = (r, c1)" by (cases "m c")
  from tts_callsD [OF assms(1) mc] obtain cs1
    where c1: "calls (snd c1) = calls (snd c) @ cs1" "count_list cs1 CallTts \<le> 0" by blast
  show "\<exists>cs. calls (snd (snd (catch_co m h c))) = calls (snd c) @ cs \<and> count_list cs CallTts \<le> 0"
  proof (cases r)
    case Raise
    obtain r2 c2 where hc: "h c1 = (r2, c2)" by (cases "h c1")
    from tts_callsD [OF assms(2) hc] obtain cs2
      where c2: "calls (snd c2) = calls (snd c1) @ cs2" "count_list cs2 CallTts \<le> 0" by blast
    have e: "calls (snd (snd (catch_co m h c))) = calls (snd c) @ (cs1 @ cs2)"
      using Raise mc hc c1(1) c2(1) by (simp add: catch_co_def)
    have "count_list (cs1 @ cs2) CallTts \<le> 0" using c1(2) c2(2) by simp
    with e show ?thesis by blast
  next
    case (Normal x)
    have e: "calls (snd (snd (catch_co m h c))) = calls (snd c) @ cs1"
      using Normal mc c1(1) by (simp add: catch_co_def)
    with c1(2) show ?thesis by blast
  next
    case Return
    have e: "calls (snd (snd (catch_co m h c))) = calls (snd c) @ cs1"
      using Return mc c1(1) by (simp add: catch_co_def)
    with c1(2) show ?thesis by blast
  next
    case Suspended
    have e: "calls (snd (snd (catch_co m h c))) = calls (snd c) @ cs1"
      using Suspended mc c1(1) by (simp add: catch_co_def)
    with c1(2) show ?thesis by blast
  qed
qed

lemma tts_calls_if:
  "tts_calls n m \<Longrightarrow> tts_calls n k \<Longrightarrow> tts_calls n (\<lambda>c. if P c then m c else k c)"
  unfolding tts_calls_def by simp

lemma tts_calls_ite:
  "tts_calls n m \<Longrightarrow> tts_calls n k \<Longrightarrow> tts_calls n (if P then m else k)"
  by simp

lemma tts_calls_token_loop: "tts_calls 0 (token_loop ts r acc)"
proof (induction ts arbitrary: acc)
  case Nil
  show ?case
    by (simp add: tts_calls_await tts0_then tts_calls_raise tts_calls_unit)
next
  case (Cons t ts)
  show ?case
    apply (simp only: token_loop.simps)
    apply (rule tts0_then)
     apply (rule tts_calls_await, simp, simp)
    apply (rule tts_calls_if)
     apply (rule tts_calls_return)
    apply (rule tts0_then [OF tts_calls_send])
    apply (rule Cons.IH)
    done
qed

lemma tts_calls_llm_stage: "tts_calls 0 (llm_stage ts)"
  unfolding llm_stage_def
  by (intro tts_calls_catch tts0_then tts_calls_log_llm tts_calls_token_loop tts_calls_unit)

lemma tts_calls_tts_stage: "tts_calls 2 (tts_stage env)"
  unfolding tts_stage_def
proof (rule tts_calls_bind [of 1 _ 1])
  show "tts_calls 1 (call_co CallTts (tts_first env))" by (rule tts_calls_call_tts)
next
  fix r1
  have a: "tts_calls 1 (bind_co (call_co CallTts (tts_retry env)) (\<lambda>r2. unit_co (g r2)))" for g :: "tts_outcome \<Rightarrow> bytes option"
    apply (rule tts_calls_bind [of 1 _ 0])
      apply (rule tts_calls_call_tts)
     apply (rule tts_calls_unit)
    apply simp
    done
  have b: "tts_calls 1 (unit_co x)" for x :: "bytes option"
    by (rule tts_calls_mono [OF tts_calls_unit]) simp
  show "tts_calls 1
          (let audio_bytes = case r1 of TtsTimeout \<Rightarrow> None | TtsResult a \<Rightarrow> a
           in if \<not> truthy audio_bytes
              then bind_co (call_co CallTts (tts_retry env))
                     (\<lambda>r2. unit_co (case r2 of TtsTimeout \<Rightarrow> audio_bytes | TtsResult a \<Rightarrow> a))
              else unit_co audio_bytes)"
    unfolding Let_def by (rule tts_calls_ite, rule a, rule b)
qed simp

lemma tts_calls_finish: "tts_calls 0 (finish_turn now t r a)"
  unfolding finish_turn_def
  by (cases "truthy a")
     (simp_all add: tts0_then tts_calls_set_state tts_calls_send tts_calls_append_turn)

lemma tts_calls_abandon: "tts_calls 0 (abandon_turn now)"
  unfolding abandon_turn_def
  by (intro tts0_then tts_calls_set_state tts_calls_send tts_calls_return)

lemma tts_calls_failed: "tts_calls 0 (pipeline_failed now)"
  unfolding pipeline_failed_def
  by (intro tts0_then tts_calls_set_state tts_calls_send)

lemma tts_calls_answer: "tts_calls 2 (answer_turn now env t)"
  unfolding answer_turn_def
  apply (rule tts0_then [OF tts_calls_send])
  apply (rule tts0_then [OF tts_calls_send])
  apply (rule tts0_bind [OF tts_calls_call_other], simp)
  apply (rule tts0_then [OF tts_calls_send])
  apply (rule tts0_bind [OF tts_calls_llm_stage])
  apply (rule tts0_then [OF tts_calls_send])
  apply (rule tts0_then [OF tts_calls_send])
  apply (rule tts_calls_bind [of 2 _ 0])
    apply (rule tts_calls_tts_stage)
   apply (rule tts_calls_finish)
  apply simp
  done

lemma tts_calls_abandon2: "tts_calls 2 (abandon_turn now)"
  by (rule tts_calls_mono [OF tts_calls_abandon]) simp

lemma tts_calls_body: "tts_calls 2 (pipeline_body now env audio_data)"
  unfolding pipeline_body_def
  apply (rule tts0_then [OF tts_calls_send])
  apply (cases "pcm_to_wav audio_data 16000 1 16")
   apply (simp add: tts_calls_mono [OF tts_calls_raise])
  apply simp
  apply (rule tts0_bind [OF tts_calls_call_other], simp)
  apply (simp add: tts_calls_abandon2 tts_calls_answer split: stt_outcome.splits)
  done

lemma process_utterance_tts_calls:
  assumes "process_utterance now env audio_data (b, w) = (r, g, (b', w'))"
  shows "\<exists>cs. calls w' = calls w @ cs \<and> count_list cs CallTts \<le> 2"
proof -
  obtain r1 c1 where bc: "pipeline_body now env audio_data (b, w) = (r1, c1)"
    by (cases "pipeline_body now env audio_data (b, w)")
  from tts_callsD [OF tts_calls_body bc] obtain cs1
    where c1: "calls (snd c1) = calls w @ cs1" "count_list cs1 CallTts \<le> 2" by auto
  show ?thesis
  proof (cases r1)
    case Raise
    obtain r2 c2 where fc: "pipeline_failed now c1 = (r2, c2)" by (cases "pipeline_failed now c1")
    from tts_callsD [OF tts_calls_failed fc] obtain cs2
      where c2: "calls (snd c2) = calls (snd c1) @ cs2" "count_list cs2 CallTts \<le> 0" by blast
    have "w' = snd c2" using assms bc Raise fc by (simp add: process_utterance_def)
    then have "calls w' = calls w @ (cs1 @ cs2)" using c1(1) c2(1) by simp
    moreover have "count_list (cs1 @ cs2) CallTts \<le> 2" using c1(2) c2(2) by simp
    ultimately show ?thesis by blast
  next
    case (Normal x)
    have "w' = snd c1" using assms bc Normal by (simp add: process_utterance_def)
    with c1 show ?thesis by blast
  next
    case Return
    have "w' = snd c1" using assms bc Return by (simp add: process_utterance_def)
    with c1 show ?thesis by blast
  next
    case Suspended
    have "w' = snd c1" using assms bc Suspended by (simp add: process_utterance_def)
    with c1 show ?thesis by blast
  qed
qed

lemma keptD:
  assumes "kept p m" "m c = (r, c1)"
  shows "p (snd c1) = p (snd c)"
proof -
  from assms(1) have "p (snd (snd (m c))) = p (snd c)"
    unfolding kept_def by blast
  then show ?thesis by (simp add: assms(2))
qed

lemma kept_unit: "kept p (unit_co x)"
  by (simp add: kept_def unit_co_def)

lemma kept_return: "kept p return_co"
  by (simp add: kept_def return_co_def)

lemma kept_raise: "kept p raise_co"
  by (simp add: kept_def raise_co_def)

lemma kept_effect: "(\<And>w. p (f w) = p w) \<Longrightarrow> kept p (effect f)"
  by (simp add: kept_def effect_def)

lemma kept_await:
  "(\<And>w. p (issue w) = p w) \<Longrightarrow> (\<And>w. p (finish w) = p w) \<Longrightarrow> kept p (await_co issue finish v)"
  by (simp add: kept_def await_co_def Let_def split: option.splits)

lemma kept_bind:
  assumes "kept p m" "\<And>x. kept p (f x)"
  shows "kept p (bind_co m f)"
  unfolding kept_def
proof
  fix c
  obtain r c1 where mc: "m c = (r, c1)" by (cases "m c")
  have h1: "p (snd c1) = p (snd c)" using assms(1) mc by (rule keptD)
  show "p (snd (snd (bind_co m f c))) = p (snd c)"
  proof (cases r)
    case (Normal x)
    have "p (snd (snd (f x c1))) = p (snd c1)"
      using assms(2) [of x] unfolding kept_def by blast
    with Normal mc h1 show ?thesis by (simp add: bind_co_def)
  qed (use mc h1 in \<open>simp_all add: bind_co_def\<close>)
qed

lemma kept_then: "kept p m \<Longrightarrow> kept p n \<Longrightarrow> kept p (then_co m n)"
  unfolding then_co_def by (rule kept_bind)

lemma kept_catch:
  assumes "kept p m" "kept p h"
  shows "kept p (catch_co m h)"
  unfolding kept_def
proof
  fix c
  obtain r c1 where mc: "m c = (r, c1)" by (cases "m c")
  have h1: "p (snd c1) = p (snd c)" using assms(1) mc by (rule keptD)
  show "p (snd (snd (catch_co m h c))) = p (snd c)"
  proof (cases r)
    case Raise
    have "p (snd (snd (h c1))) = p (snd c1)"
      using assms(2) unfolding kept_def by blast
    with Raise mc h1 show ?thesis by (simp add: catch_co_def)
  qed (use mc h1 in \<open>simp_all add: catch_co_def\<close>)
qed

lemma kept_if: "kept p m \<Longrightarrow> kept p k \<Longrightarrow> kept p (\<lambda>c. if P c then m c else k c)"
  unfolding kept_def by simp

lemma untouchedD:
  assumes "untouched p"
  shows "p (send_event e w) = p w" "p (log_call k w) = p w" "p (set_state now s w) = p w"
    "p (append_turn t r w) = p w"
  using assms unfolding untouched_def by blast+

lemma untouched_tasks: "untouched tasks"
  by (simp add: untouched_def send_event_def log_call_def set_state_def append_turn_def)

lemma untouched_processing_task: "untouched processing_task"
  by (simp add: untouched_def send_event_def log_call_def set_state_def append_turn_def)

lemma kept_send: "untouched p \<Longrightarrow> kept p (send_co e)"
  unfolding send_co_def by (rule kept_await) (simp_all add: untouchedD)

lemma kept_call: "untouched p \<Longrightarrow> kept p (call_co k v)"
  unfolding call_co_def by (rule kept_await) (simp_all add: untouchedD)

lemma kept_set_state: "untouched p \<Longrightarrow> kept p (effect (set_state now s))"
  by (rule kept_effect) (simp add: untouchedD)

lemma kept_log: "untouched p \<Longrightarrow> kept p (effect (log_call k))"
  by (rule kept_effect) (simp add: untouchedD)

lemma kept_append_turn: "untouched p \<Longrightarrow> kept p (effect (append_turn t r))"
  by (rule kept_effect) (simp add: untouchedD)

lemma kept_token_loop: "untouched p \<Longrightarrow> kept p (token_loop ts r acc)"
proof (induction ts arbitrary: acc)
  case Nil
  then show ?case
    by (simp add: kept_await kept_then kept_raise kept_unit)
next
  case (Cons t ts)
  show ?case
    apply (simp only: token_loop.simps)
    apply (rule kept_then)
     apply (rule kept_await, simp, simp)
    apply (rule kept_if)
     apply (rule kept_return)
    apply (rule kept_then [OF kept_send [OF Cons.prems]])
    apply (rule Cons.IH [OF Cons.prems])
    done
qed

lemma kept_llm_stage: "untouched p \<Longrightarrow> kept p (llm_stage ts)"
  unfolding llm_stage_def
  by (intro kept_catch kept_then kept_log kept_token_loop kept_unit)

lemma kept_tts_stage: "untouched p \<Longrightarrow> kept p (tts_stage env)"
  unfolding tts_stage_def
  by (rule kept_bind) (simp_all add: Let_def kept_call kept_bind kept_unit)

lemma kept_abandon: "untouched p \<Longrightarrow> kept p (abandon_turn now)"
  unfolding abandon_turn_def
  by (intro kept_then kept_set_state kept_send kept_return)

lemma kept_failed: "untouched p \<Longrightarrow> kept p (pipeline_failed now)"
  unfolding pipeline_failed_def
  by (intro kept_then kept_set_state kept_send)

lemma kept_finish: "untouched p \<Longrightarrow> kept p (finish_turn now t r a)"
  unfolding finish_turn_def
  by (cases "truthy a")
     (simp_all add: kept_then kept_set_state kept_send kept_append_turn)

lemma kept_answer: "untouched p \<Longrightarrow> kept p (answer_turn now env t)"
  unfolding answer_turn_def
  by (intro kept_then kept_bind kept_send kept_call kept_llm_stage kept_tts_stage kept_finish)

lemma kept_body: "untouched p \<Longrightarrow> kept p (pipeline_body now env audio_data)"
  unfolding pipeline_body_def
  apply (rule kept_then [OF kept_send], assumption)
  apply (cases "pcm_to_wav audio_data 16000 1 16")
   apply (simp add: kept_raise)
  apply simp
  apply (rule kept_bind [OF kept_call], assumption)
  apply (simp add: kept_abandon kept_answer split: stt_outcome.splits)
  done

lemma process_utterance_kept:
  assumes "untouched p" "process_utterance now env audio_data (b, w) = (r, g, (b', w'))"
  shows "p w' = p w"
proof -
  obtain r1 c1 where bc: "pipeline_body now env audio_data (b, w) = (r1, c1)"
    by (cases "pipeline_body now env audio_data (b, w)")
  have h1: "p (snd c1) = p w"
    using keptD [OF kept_body [OF assms(1)] bc] by simp
  have h2: "p (snd (snd (pipeline_failed now c1))) = p (snd c1)"
    using kept_failed [OF assms(1), of now] unfolding kept_def by blast
  show ?thesis
    using assms(2) bc h1 h2
    by (cases r1) (auto simp: process_utterance_def split: prod.splits)
qed

lemma pipeline_failed_state:
  "state (snd (snd (pipeline_failed now c))) = LISTENING"
  by (simp add: pipeline_failed_def then_co_def bind_co_def effect_def send_co_def await_co_def
      set_state_def send_event_def Let_def split: option.splits)

lemma process_utterance_guard:
  assumes "process_utterance now env audio_data (b, w) = (r, g, (b', w'))"
  shows "g \<or> state w' = LISTENING"
proof -
  obtain r1 c1 where bc: "pipeline_body now env audio_data (b, w) = (r1, c1)"
    by (cases "pipeline_body now env audio_data (b, w)")
  show ?thesis
    using assms bc pipeline_failed_state [of now c1]
    by (cases r1) (auto simp: process_utterance_def split: prod.splits)
qed

subsection \<open>A turn whose awaits all complete\<close>

lemma await_co_all: "await_co issue finish v (None, w) = (Normal v, (None, finish (issue w)))"
  by (simp add: await_co_def)

lemma send_co_all: "send_co e (None, w) = (Normal (), (None, send_event e w))"
  by (simp add: send_co_def await_co_all)

lemma call_co_all: "call_co k v (None, w) = (Normal v, (None, log_call k w))"
  by (simp add: call_co_def await_co_all)

lemma effect_all: "effect f (b, w) = (Normal (), (b, f w))"
  by (simp add: effect_def)

lemma then_co_Normal: "m c = (Normal x, c1) \<Longrightarrow> then_co m n c = n c1"
  by (simp add: then_co_def bind_co_def)

lemma bind_co_Normal: "m c = (Normal x, c1) \<Longrightarrow> bind_co m f c = f x c1"
  by (simp add: bind_co_def)

lemma is_active_kept:
  "is_active (send_event e w) = is_active w" "is_active (log_call k w) = is_active w"
  "is_active (set_state now s w) = is_active w"
  by (simp_all add: send_event_def log_call_def set_state_def)

lemma token_loop_all:
  "is_active w \<Longrightarrow>
   token_loop ts r acc (None, w) =
     ((if r then Raise else Normal (acc @ concat ts)),
      (None, w\<lparr>sent := sent w @ map Token ts\<rparr>))"
proof (induction ts arbitrary: acc w)
  case Nil
  then show ?case
    by (simp add: then_co_def bind_co_def await_co_all raise_co_def unit_co_def)
next
  case (Cons t ts)
  have a: "is_active (send_event (Token t) w)" using Cons.prems by (simp add: is_active_kept)
  have "token_loop (t # ts) r acc (None, w)
        = token_loop ts r (acc @ t) (None, send_event (Token t) w)"
    using Cons.prems
    by (simp add: then_co_def bind_co_def await_co_all send_co_all)
  also have "\<dots> = ((if r then Raise else Normal ((acc @ t) @ concat ts)),
      (None, (send_event (Token t) w)\<lparr>sent := sent (send_event (Token t) w) @ map Token ts\<rparr>))"
    by (rule Cons.IH [OF a])
  finally show ?case by (simp add: send_event_def)
qed

lemma llm_stage_all:
  "is_active w \<Longrightarrow>
   llm_stage ts (None, w) =
     (Normal (reply_of ts),
      (None, (log_call CallLlm w)\<lparr>sent := sent w @ map Token (yielded ts)\<rparr>))"
  by (simp add: llm_stage_def catch_co_def then_co_def bind_co_def effect_all token_loop_all
      is_active_kept unit_co_def reply_of_def log_call_def)

lemma tts_stage_all:
  "tts_stage env (None, w) =
     (Normal (final_audio env),
      (None, if truthy (first_audio env) then log_call CallTts w
             else log_call CallTts (log_call CallTts w)))"
  by (simp add: tts_stage_def bind_co_def call_co_all unit_co_def Let_def first_audio_def
      final_audio_def split: tts_outcome.splits)

lemma finish_turn_all:
  "finish_turn now t r a (None, w) =
     (Normal (),
      (None, send_event Perf (append_turn t r
               (if truthy a then send_event (Audio (the a)) (set_state now AI_SPEAKING w)
                else send_event (Status Listening) (set_state now LISTENING w)))))"
  by (simp add: finish_turn_def then_co_def bind_co_def effect_all send_co_all)

lemma answer_turn_all:
  assumes "is_active w"
  shows "\<exists>w'. answer_turn now env t (None, w) = (Normal (), (None, w')) \<and>
           sent w' = sent w @ [Transcript t User, Status Searching, Status Thinking]
                     @ map Token (yielded (llm env))
                     @ [Transcript (reply_of (llm env)) Assistant, Status Speaking]
                     @ (if truthy (final_audio env) then [Audio (the (final_audio env))]
                        else [Status Listening])
                     @ [Perf] \<and>
           calls w' = calls w @ [CallRag, CallLlm, CallTts]
                      @ (if truthy (first_audio env) then [] else [CallTts]) \<and>
           state w' = (if truthy (final_audio env) then AI_SPEAKING else LISTENING) \<and>
           conversation_history w' =
             cap_history (conversation_history w @ [(User, t), (Assistant, reply_of (llm env))])"
proof -
  let ?w1 = "send_event (Status Thinking) (log_call CallRag
               (send_event (Status Searching) (send_event (Transcript t User) w)))"
  have a1: "is_active ?w1" using assms by (simp add: is_active_kept)
  show ?thesis
    using assms
    by (simp add: answer_turn_def then_co_def bind_co_def send_co_all call_co_all
        llm_stage_all [OF a1] tts_stage_all finish_turn_all)
       (simp add: send_event_def log_call_def set_state_def append_turn_def)
qed

lemma pcm_to_wav_fits:
  "36 + length audio_data < 2 ^ 32 \<Longrightarrow> \<exists>wav. pcm_to_wav audio_data 16000 1 16 = Inr wav"
  by (simp add: pcm_to_wav_def Let_def)

lemma process_utterance_all:
  assumes "transcribed env audio_data t" "is_active w"
  shows "\<exists>w'. process_utterance now env audio_data (None, w) = (Normal (), True, (None, w')) \<and>
           sent w' = sent w @ [Status Transcribing, Transcript t User, Status Searching,
                               Status Thinking]
                     @ map Token (yielded (llm env))
                     @ [Transcript (reply_of (llm env)) Assistant, Status Speaking]
                     @ (if truthy (final_audio env) then [Audio (the (final_audio env))]
                        else [Status Listening])
                     @ [Perf] \<and>
           calls w' = calls w @ [CallStt, CallRag, CallLlm, CallTts]
                      @ (if truthy (first_audio env) then [] else [CallTts]) \<and>
           state w' = (if truthy (final_audio env) then AI_SPEAKING else LISTENING) \<and>
           conversation_history w' =
             cap_history (conversation_history w @ [(User, t), (Assistant, reply_of (llm env))])"
proof -
  let ?w0 = "log_call CallStt (send_event (Status Transcribing) w)"
  have a0: "is_active ?w0" using assms(2) by (simp add: is_active_kept)
  from answer_turn_all [OF a0, of now env t] obtain w'
    where w': "answer_turn now env t (None, ?w0) = (Normal (), (None, w'))"
      "sent w' = sent ?w0 @ [Transcript t User, Status Searching, Status Thinking]
                     @ map Token (yielded (llm env))
                     @ [Transcript (reply_of (llm env)) Assistant, Status Speaking]
                     @ (if truthy (final_audio env) then [Audio (the (final_audio env))]
                        else [Status Listening])
                     @ [Perf]"
      "calls w' = calls ?w0 @ [CallRag, CallLlm, CallTts]
                      @ (if truthy (first_audio env) then [] else [CallTts])"
      "state w' = (if truthy (final_audio env) then AI_SPEAKING else LISTENING)"
      "conversation_history w' =
             cap_history (conversation_history ?w0 @ [(User, t), (Assistant, reply_of (llm env))])"
    by blast
  from assms(1) have t: "stt env = SttText t" "t \<noteq> []" "\<not> is_blank t"
    "36 + length audio_data < 2 ^ 32"
    by (simp_all add: transcribed_def)
  from pcm_to_wav_fits [OF t(4)] obtain wav where wav: "pcm_to_wav audio_data 16000 1 16 = Inr wav"
    by blast
  have b: "pipeline_body now env audio_data (None, w) = (Normal (), (None, w'))"
    using t wav w'(1)
    by (simp add: pipeline_body_def then_co_def bind_co_def send_co_all call_co_all)
  have p: "process_utterance now env audio_data (None, w) = (Normal (), True, (None, w'))"
    by (simp add: process_utterance_def b)
  have s: "sent ?w0 = sent w @ [Status Transcribing]" "calls ?w0 = calls w @ [CallStt]"
    "conversation_history ?w0 = conversation_history w"
    by (simp_all add: send_event_def log_call_def)
  show ?thesis
    using p w'(2,3,4,5) s by simp
qed

lemma llm_stage_no_raise: "fst (llm_stage ts c) \<noteq> Raise"
  by (simp add: llm_stage_def catch_co_def unit_co_def split: prod.splits outcome.splits)

section \<open>Properties of a turn\<close>

lemma process_utterance_calls:
  "\<exists>cs. calls (snd (snd (snd (process_utterance now env audio_data (b, w))))) = calls w @ cs
        \<and> count_list cs CallTts \<le> 2"
proof -
  obtain r g b' w' where p: "process_utterance now env audio_data (b, w) = (r, g, (b', w'))"
    by (cases "process_utterance now env audio_data (b, w)") auto
  from process_utterance_tts_calls [OF p] show ?thesis by (simp add: p)
qed

lemma no_audio_among:
  "Audio a \<notin> set ([Status Transcribing, Transcript t User, Status Searching, Status Thinking]
                    @ map Token ts
                    @ [Transcript r Assistant, Status Speaking, Status Listening, Perf])"
  by auto

text \<open>
  C7: a turn calls the synthesis at most twice, wherever it stops. When all its awaits
  complete and the transcript is not blank, the synthesis is called once if the first call
  gives audio and exactly twice otherwise (a timeout, no audio or empty audio). With audio
  the session is in AI\_SPEAKING and the audio event is sent. When the retry fails too, no
  audio event is sent, the session is in LISTENING, \<open>status(listening)\<close> is sent after
  the assistant transcript, and the assistant transcript and the tokens sent before stand.
\<close>

theorem synthesis_retried_once:
  "(\<exists>cs. calls (snd (snd (snd (process_utterance now env audio_data (b, w))))) = calls w @ cs
         \<and> count_list cs CallTts \<le> 2) \<and>
   (transcribed env audio_data t \<and> is_active w \<longrightarrow>
      (\<exists>w'. process_utterance now env audio_data (None, w) = (Normal (), True, (None, w')) \<and>
         calls w' = calls w @ [CallStt, CallRag, CallLlm, CallTts]
                    @ (if truthy (first_audio env) then [] else [CallTts]) \<and>
         (truthy (final_audio env) \<longrightarrow>
            state w' = AI_SPEAKING \<and> Audio (the (final_audio env)) \<in> set (sent w')) \<and>
         (\<not> truthy (final_audio env) \<longrightarrow>
            state w' = LISTENING \<and>
            sent w' = sent w @ [Status Transcribing, Transcript t User, Status Searching,
                                Status Thinking]
                      @ map Token (yielded (llm env))
                      @ [Transcript (reply_of (llm env)) Assistant, Status Speaking,
                         Status Listening, Perf] \<and>
            (\<forall>a. Audio a \<notin> set (drop (length (sent w)) (sent w'))))))"
proof (intro conjI impI)
  show "\<exists>cs. calls (snd (snd (snd (process_utterance now env audio_data (b, w))))) = calls w @ cs
         \<and> count_list cs CallTts \<le> 2"
    by (rule process_utterance_calls)
next
  assume a: "transcribed env audio_data t \<and> is_active w"
  then have a1: "transcribed env audio_data t" and a2: "is_active w" by simp_all
  from process_utterance_all [OF a1 a2, of now] obtain w'
    where w': "process_utterance now env audio_data (None, w) = (Normal (), True, (None, w'))"
      "sent w' = sent w @ [Status Transcribing, Transcript t User, Status Searching,
                               Status Thinking]
                     @ map Token (yielded (llm env))
                     @ [Transcript (reply_of (llm env)) Assistant, Status Speaking]
                     @ (if truthy (final_audio env) then [Audio (the (final_audio env))]
                        else [Status Listening])
                     @ [Perf]"
      "calls w' = calls w @ [CallStt, CallRag, CallLlm, CallTts]
                      @ (if truthy (first_audio env) then [] else [CallTts])"
      "state w' = (if truthy (final_audio env) then AI_SPEAKING else LISTENING)"
    by blast
  have good: "truthy (final_audio env) \<longrightarrow>
            state w' = AI_SPEAKING \<and> Audio (the (final_audio env)) \<in> set (sent w')"
    using w'(2,4) by simp
  have bad: "\<not> truthy (final_audio env) \<longrightarrow>
            state w' = LISTENING \<and>
            sent w' = sent w @ [Status Transcribing, Transcript t User, Status Searching,
                                Status Thinking]
                      @ map Token (yielded (llm env))
                      @ [Transcript (reply_of (llm env)) Assistant, Status Speaking,
                         Status Listening, Perf] \<and>
            (\<forall>a. Audio a \<notin> set (drop (length (sent w)) (sent w')))"
  proof
    assume n: "\<not> truthy (final_audio env)"
    have s: "sent w' = sent w @ ([Status Transcribing, Transcript t User, Status Searching,
                                Status Thinking]
                      @ map Token (yielded (llm env))
                      @ [Transcript (reply_of (llm env)) Assistant, Status Speaking,
                         Status Listening, Perf])"
      using w'(2) n by simp
    have d: "\<forall>a. Audio a \<notin> set (drop (length (sent w)) (sent w'))"
      unfolding s using no_audio_among by simp
    show "state w' = LISTENING \<and>
            sent w' = sent w @ [Status Transcribing, Transcript t User, Status Searching,
                                Status Thinking]
                      @ map Token (yielded (llm env))
                      @ [Transcript (reply_of (llm env)) Assistant, Status Speaking,
                         Status Listening, Perf] \<and>
            (\<forall>a. Audio a \<notin> set (drop (length (sent w)) (sent w')))"
      using w'(4) n s d by simp
  qed
  show "\<exists>w'. process_utterance now env audio_data (None, w) = (Normal (), True, (None, w')) \<and>
         calls w' = calls w @ [CallStt, CallRag, CallLlm, CallTts]
                    @ (if truthy (first_audio env) then [] else [CallTts]) \<and>
         (truthy (final_audio env) \<longrightarrow>
            state w' = AI_SPEAKING \<and> Audio (the (final_audio env)) \<in> set (sent w')) \<and>
         (\<not> truthy (final_audio env) \<longrightarrow>
            state w' = LISTENING \<and>
            sent w' = sent w @ [Status Transcribing, Transcript t User, Status Searching,
                                Status Thinking]
                      @ map Token (yielded (llm env))
                      @ [Transcript (reply_of (llm env)) Assistant, Status Speaking,
                         Status Listening, Perf] \<and>
            (\<forall>a. Audio a \<notin> set (drop (length (sent w)) (sent w'))))"
    using w'(1,3) good bad by blast
qed

lemma sample_turns:
  "transcribed turn_ok loud2 [104, 105]" "transcribed turn_mute loud2 [104, 105]"
  "transcribed turn_refused loud2 [104, 105]" "is_active processing_world"
  "sent processing_world = []" "calls processing_world = []"
  "conversation_history processing_world = []"
  by (simp_all add: transcribed_def turn_ok_def turn_mute_def turn_refused_def loud2_def
      is_blank_def py_isspace_def processing_world_def set_state_def new_session_def)

lemma sample_mute:
  "\<not> truthy (first_audio turn_mute)" "\<not> truthy (final_audio turn_mute)"
  "yielded (llm turn_mute) = [[111, 107]]" "reply_of (llm turn_mute) = [111, 107]"
  by (simp_all add: turn_mute_def turn_ok_def first_audio_def final_audio_def truthy_def
      reply_of_def)

theorem synthesis_retried_once_witness:
  "transcribed turn_mute loud2 [104, 105] \<and> is_active processing_world \<and>
   \<not> truthy (final_audio turn_mute) \<and>
   (\<exists>w'. process_utterance 0 turn_mute loud2 (None, processing_world)
            = (Normal (), True, (None, w')) \<and>
          calls w' = [CallStt, CallRag, CallLlm, CallTts, CallTts] \<and>
          state w' = LISTENING \<and>
          sent w' = [Status Transcribing, Transcript [104, 105] User, Status Searching,
                     Status Thinking, Token [111, 107], Transcript [111, 107] Assistant,
                     Status Speaking, Status Listening, Perf])"
  using synthesis_retried_once [of 0 turn_mute loud2 None processing_world "[104, 105]"]
    sample_turns sample_mute
  by simp blast

lemma stream_llm_400:
  "stream_llm (Response 400 EndOfStream ls e) fb
     = (\<lparr>yielded = [case fb of FallbackContent c \<Rightarrow> if c \<noteq> [] then c else APOLOGY
                              | _ \<Rightarrow> APOLOGY],
         raised = False\<rparr>, 1)"
  by (simp add: stream_llm_def llm_fallback_def split: fallback_response.splits)

lemma stream_llm_400_unread:
  "error_body \<noteq> EndOfStream \<Longrightarrow>
   stream_llm (Response 400 error_body ls e) fb
     = (\<lparr>yielded = [if error_body = ReadTimeout then APOLOGY_DELAY else APOLOGY],
         raised = False\<rparr>, 0)"
  by (cases error_body) (simp_all add: stream_llm_def apology_for_def)

lemma stream_llm_never_raises: "\<not> raised (fst (stream_llm http fb))"
  by (simp add: stream_llm_def split: http_stream.splits option.splits)

lemma turn_with_reply:
  assumes "transcribed env audio_data t" "is_active w"
    "llm env = \<lparr>yielded = [reply], raised = False\<rparr>"
  shows "\<exists>w'. process_utterance now env audio_data (None, w) = (Normal (), True, (None, w')) \<and>
           Transcript reply Assistant \<in> set (sent w') \<and>
           calls w' = calls w @ [CallStt, CallRag, CallLlm, CallTts]
                      @ (if truthy (first_audio env) then [] else [CallTts]) \<and>
           conversation_history w' =
             cap_history (conversation_history w @ [(User, t), (Assistant, reply)])"
proof -
  have r: "reply_of (llm env) = reply"
    by (simp add: assms(3) reply_of_def)
  from process_utterance_all [OF assms(1,2), of now] obtain w'
    where w': "process_utterance now env audio_data (None, w) = (Normal (), True, (None, w'))"
      "sent w' = sent w @ [Status Transcribing, Transcript t User, Status Searching,
                               Status Thinking]
                     @ map Token (yielded (llm env))
                     @ [Transcript (reply_of (llm env)) Assistant, Status Speaking]
                     @ (if truthy (final_audio env) then [Audio (the (final_audio env))]
                        else [Status Listening])
                     @ [Perf]"
      "calls w' = calls w @ [CallStt, CallRag, CallLlm, CallTts]
                      @ (if truthy (first_audio env) then [] else [CallTts])"
      "conversation_history w' =
             cap_history (conversation_history w @ [(User, t), (Assistant, reply_of (llm env))])"
    by blast
  have s: "Transcript reply Assistant \<in> set (sent w')"
    unfolding w'(2) r by simp
  show ?thesis using w'(1,3,4) s r by auto
qed

text \<open>
  C9 (amended): when the streaming call answers 400 and the error body is read,
  \<open>stream_llm\<close> makes exactly one fallback call: it yields the fallback's text when the
  fallback answers 200 with a text that is not empty, and the fixed apology phrase when the
  fallback answers another status, raises, or gives an empty text. When reading the error
  body fails, no fallback call is made and an apology phrase is yielded (the one for a
  delay on a read timeout). \<open>stream_llm\<close> never raises, and no exception leaves the
  generation stage of the pipeline: on an active session it always ends with a reply. The
  turn goes on with the text yielded: it is sent as the assistant transcript, synthesised,
  and recorded in the history.
\<close>

theorem generation_falls_back_once:
  "stream_llm (Response 400 EndOfStream ls e) (FallbackContent c)
     = (\<lparr>yielded = [if c \<noteq> [] then c else APOLOGY], raised = False\<rparr>, 1) \<and>
   stream_llm (Response 400 EndOfStream ls e) FallbackStatusNot200
     = (\<lparr>yielded = [APOLOGY], raised = False\<rparr>, 1) \<and>
   stream_llm (Response 400 EndOfStream ls e) FallbackRaised
     = (\<lparr>yielded = [APOLOGY], raised = False\<rparr>, 1) \<and>
   stream_llm (Response 400 ReadTimeout ls e) fb
     = (\<lparr>yielded = [APOLOGY_DELAY], raised = False\<rparr>, 0) \<and>
   stream_llm (Response 400 OtherError ls e) fb
     = (\<lparr>yielded = [APOLOGY], raised = False\<rparr>, 0) \<and>
   \<not> raised (fst (stream_llm http fb)) \<and>
   fst (llm_stage ts c0) \<noteq> Raise \<and>
   (is_active w \<longrightarrow> fst (llm_stage ts (None, w)) = Normal (reply_of ts)) \<and>
   (transcribed env audio_data t \<and> is_active w \<and>
    llm env = fst (stream_llm (Response 400 error_body ls e) fb) \<longrightarrow>
      (\<exists>w'. process_utterance now env audio_data (None, w) = (Normal (), True, (None, w')) \<and>
         Transcript
           (case error_body of
              EndOfStream \<Rightarrow>
                (case fb of FallbackContent c \<Rightarrow> if c \<noteq> [] then c else APOLOGY
                 | _ \<Rightarrow> APOLOGY)
            | ReadTimeout \<Rightarrow> APOLOGY_DELAY
            | OtherError \<Rightarrow> APOLOGY) Assistant \<in> set (sent w') \<and>
         calls w' = calls w @ [CallStt, CallRag, CallLlm, CallTts]
                    @ (if truthy (first_audio env) then [] else [CallTts]) \<and>
         conversation_history w' =
           cap_history (conversation_history w
              @ [(User, t),
                 (Assistant,
                  case error_body of
                    EndOfStream \<Rightarrow>
                      (case fb of FallbackContent c \<Rightarrow> if c \<noteq> [] then c else APOLOGY
                       | _ \<Rightarrow> APOLOGY)
                  | ReadTimeout \<Rightarrow> APOLOGY_DELAY
                  | OtherError \<Rightarrow> APOLOGY)])))"
proof (intro conjI impI)
  show "stream_llm (Response 400 EndOfStream ls e) (FallbackContent c)
     = (\<lparr>yielded = [if c \<noteq> [] then c else APOLOGY], raised = False\<rparr>, 1)"
    by (simp add: stream_llm_400)
  show "stream_llm (Response 400 EndOfStream ls e) FallbackStatusNot200
     = (\<lparr>yielded = [APOLOGY], raised = False\<rparr>, 1)"
    by (simp add: stream_llm_400)
  show "stream_llm (Response 400 EndOfStream ls e) FallbackRaised
     = (\<lparr>yielded = [APOLOGY], raised = False\<rparr>, 1)"
    by (simp add: stream_llm_400)
  show "stream_llm (Response 400 ReadTimeout ls e) fb
     = (\<lparr>yielded = [APOLOGY_DELAY], raised = False\<rparr>, 0)"
    by (simp add: stream_llm_400_unread)
  show "stream_llm (Response 400 OtherError ls e) fb
     = (\<lparr>yielded = [APOLOGY], raised = False\<rparr>, 0)"
    by (simp add: stream_llm_400_unread)
  show "\<not> raised (fst (stream_llm http fb))" by (rule stream_llm_never_raises)
  show "fst (llm_stage ts c0) \<noteq> Raise" by (rule llm_stage_no_raise)
  show "fst (llm_stage ts (None, w)) = Normal (reply_of ts)" if "is_active w"
    using that by (simp add: llm_stage_all)
next
  let ?reply = "case error_body of
              EndOfStream \<Rightarrow>
                (case fb of FallbackContent c \<Rightarrow> if c \<noteq> [] then c else APOLOGY
                 | _ \<Rightarrow> APOLOGY)
            | ReadTimeout \<Rightarrow> APOLOGY_DELAY
            | OtherError \<Rightarrow> APOLOGY"
  assume a: "transcribed env audio_data t \<and> is_active w \<and>
    llm env = fst (stream_llm (Response 400 error_body ls e) fb)"
  then have a1: "transcribed env audio_data t" and a2: "is_active w"
    and a3: "llm env = fst (stream_llm (Response 400 error_body ls e) fb)"
    by simp_all
  have "fst (stream_llm (Response 400 error_body ls e) fb)
          = \<lparr>yielded = [?reply], raised = False\<rparr>"
    by (cases error_body) (simp_all add: stream_llm_400 stream_llm_400_unread)
  with a3 have l: "llm env = \<lparr>yielded = [?reply], raised = False\<rparr>" by simp
  show "\<exists>w'. process_utterance now env audio_data (None, w) = (Normal (), True, (None, w')) \<and>
         Transcript ?reply Assistant \<in> set (sent w') \<and>
         calls w' = calls w @ [CallStt, CallRag, CallLlm, CallTts]
                    @ (if truthy (first_audio env) then [] else [CallTts]) \<and>
         conversation_history w' =
           cap_history (conversation_history w @ [(User, t), (Assistant, ?reply)])"
    by (rule turn_with_reply [OF a1 a2 l])
qed

lemma sample_fallback:
  "transcribed turn_fallback loud2 [104, 105]"
  "llm turn_fallback
     = fst (stream_llm (Response 400 EndOfStream [] EndOfStream) (FallbackContent [121, 111]))"
  "truthy (first_audio turn_fallback)"
  by (simp_all add: transcribed_def turn_fallback_def turn_ok_def loud2_def is_blank_def
      py_isspace_def first_audio_def truthy_def)

lemma sample_refused:
  "llm turn_refused
     = fst (stream_llm (Response 400 EndOfStream [] EndOfStream) FallbackStatusNot200)"
  "truthy (first_audio turn_refused)"
  by (simp_all add: turn_refused_def turn_ok_def first_audio_def truthy_def)

theorem generation_falls_back_once_witness:
  "is_active processing_world \<and> transcribed turn_fallback loud2 [104, 105] \<and>
   transcribed turn_refused loud2 [104, 105] \<and>
   (\<exists>w'. process_utterance 0 turn_fallback loud2 (None, processing_world)
            = (Normal (), True, (None, w')) \<and>
          Transcript [121, 111] Assistant \<in> set (sent w') \<and>
          calls w' = [CallStt, CallRag, CallLlm, CallTts] \<and>
          conversation_history w' = [(User, [104, 105]), (Assistant, [121, 111])]) \<and>
   (\<exists>w'. process_utterance 0 turn_refused loud2 (None, processing_world)
            = (Normal (), True, (None, w')) \<and>
          Transcript APOLOGY Assistant \<in> set (sent w') \<and>
          calls w' = [CallStt, CallRag, CallLlm, CallTts] \<and>
          conversation_history w' = [(User, [104, 105]), (Assistant, APOLOGY)]) \<and>
   fst (llm_stage (llm turn_ok) (None, processing_world)) = Normal [111, 107]"
proof -
  note g = generation_falls_back_once [where ls = "[]" and e = EndOfStream
      and http = ConnectError and ts = "llm turn_ok" and ?c0.0 = "(None, processing_world)"
      and w = processing_world and audio_data = loud2 and t = "[104, 105]" and now = 0
      and error_body = EndOfStream and c = "[121, 111]"]
  from g [where fb = "FallbackContent [121, 111]" and env = turn_fallback]
    sample_turns sample_fallback
  have a: "\<exists>w'. process_utterance 0 turn_fallback loud2 (None, processing_world)
            = (Normal (), True, (None, w')) \<and>
          Transcript [121, 111] Assistant \<in> set (sent w') \<and>
          calls w' = [CallStt, CallRag, CallLlm, CallTts] \<and>
          conversation_history w' = [(User, [104, 105]), (Assistant, [121, 111])]"
    by (simp add: cap_history_def MAX_HISTORY_ENTRIES_def)
  from g [where fb = FallbackStatusNot200 and env = turn_refused]
    sample_turns sample_refused
  have b: "\<exists>w'. process_utterance 0 turn_refused loud2 (None, processing_world)
            = (Normal (), True, (None, w')) \<and>
          Transcript APOLOGY Assistant \<in> set (sent w') \<and>
          calls w' = [CallStt, CallRag, CallLlm, CallTts] \<and>
          conversation_history w' = [(User, [104, 105]), (Assistant, APOLOGY)]"
    by (simp add: cap_history_def MAX_HISTORY_ENTRIES_def)
  from g [where fb = FallbackStatusNot200 and env = turn_refused] sample_turns(4)
  have c: "fst (llm_stage (llm turn_ok) (None, processing_world)) = Normal [111, 107]"
    by (simp add: reply_of_def turn_ok_def)
  show ?thesis using a b c sample_turns(3,4) sample_fallback(1) by blast
qed

text \<open>
  C9 (as stated): a streaming call that fails with a 400 is followed by exactly one
  fallback call. The error body of the response is read before the status is tested, inside
  the \<open>try\<close> block: when that read raises, the \<open>except\<close> clauses yield an apology and
  the fallback, which would have answered, is never called.
\<close>

theorem no_fallback_when_error_body_unread:
  "stream_llm (Response 400 OtherError [] EndOfStream) (FallbackContent [121, 111])
     = (\<lparr>yielded = [APOLOGY], raised = False\<rparr>, 0) \<and>
   stream_llm (Response 400 ReadTimeout [] EndOfStream) (FallbackContent [121, 111])
     = (\<lparr>yielded = [APOLOGY_DELAY], raised = False\<rparr>, 0) \<and>
   stream_llm (Response 400 EndOfStream [] EndOfStream) (FallbackContent [121, 111])
     = (\<lparr>yielded = [[121, 111]], raised = False\<rparr>, 1)"
  by (simp add: stream_llm_def llm_fallback_def apology_for_def)

lemma teardown_cancels:
  assumes "processing_task w = Some i" "i < length (tasks w)"
    "status (tasks w ! i) = TaskPending" "kind (tasks w ! i) = Utterance audio_data"
    "started (tasks w ! i)" "in_try (tasks w ! i) \<or> state w = LISTENING"
  shows "state (teardown t w) = LISTENING"
    "conversation_history (teardown t w) = conversation_history w"
    "status (tasks (teardown t w) ! i) = TaskCancelled"
  using assms
  by (auto simp: teardown_def Let_def task_done_def cancel_task_def on_cancelled_def
      set_state_def)

lemma run_task_turn:
  assumes "i < length (tasks w)" "kind (tasks w ! i) = Utterance audio_data"
    "status (tasks w ! i) = TaskPending" "\<not> started (tasks w ! i)"
    "process_utterance now env audio_data (budget, w) = (r, g, (b', w'))"
  shows "run_task now i (TurnEnv env) budget w = settle i r g w'"
  using assms by (simp add: run_task_def)

text \<open>
  C5: the pipeline task of a turn runs until it stays suspended at some await, and is then
  cancelled. Up to there the history is as before or one whole turn longer. When the
  connection's teardown cancels the task, the session ends in LISTENING and the history is
  left as it is; when a barge-in cancels it (the task is suspended while the session is in
  AI\_SPEAKING), the session ends in USER\_SPEAKING, the history is left as it is, and the
  session holds no task.
\<close>

theorem cancelled_turn:
  assumes "i < length (tasks w)" "kind (tasks w ! i) = Utterance audio_data"
    "status (tasks w ! i) = TaskPending" "\<not> started (tasks w ! i)"
    "processing_task w = Some i"
    "w1 = run_task now i (TurnEnv env) budget w"
    "status (tasks w1 ! i) = TaskPending"
  shows "turn_appended (conversation_history w) (conversation_history w1) \<and>
         state (teardown t w1) = LISTENING \<and>
         conversation_history (teardown t w1) = conversation_history w1 \<and>
         status (tasks (teardown t w1) ! i) = TaskCancelled \<and>
         (is_ai_speaking w1 \<and> calculate_rms f = Inr rms \<and> rms > BARGE_IN_THRESHOLD \<and>
          barge_in_frames w1 + 1 \<ge> MIN_BARGE_IN_FRAMES \<longrightarrow>
            (\<exists>w2. handle_audio_chunk t f w1 = Inr w2 \<and> state w2 = USER_SPEAKING \<and>
                   conversation_history w2 = conversation_history w1 \<and>
                   status (tasks w2 ! i) = TaskCancelled \<and> processing_task w2 = None))"
proof -
  obtain r g b' w' where p: "process_utterance now env audio_data (budget, w) = (r, g, (b', w'))"
    by (cases "process_utterance now env audio_data (budget, w)") auto
  have w1: "w1 = settle i r g w'"
    using assms(6) run_task_turn [OF assms(1-4) p] by simp
  have k1: "tasks w' = tasks w" by (rule process_utterance_kept [OF untouched_tasks p])
  have k2: "processing_task w' = processing_task w"
    by (rule process_utterance_kept [OF untouched_processing_task p])
  have h: "turn_appended (conversation_history w) (conversation_history w')"
    by (rule process_utterance_history [OF p])
  have gd: "g \<or> state w' = LISTENING" by (rule process_utterance_guard [OF p])
  have f1: "conversation_history w1 = conversation_history w'" "state w1 = state w'"
    "processing_task w1 = Some i" "i < length (tasks w1)"
    using assms(1,5) k1 k2 by (simp_all add: w1 settle_def)
  have f2: "kind (tasks w1 ! i) = Utterance audio_data" "started (tasks w1 ! i)"
    "in_try (tasks w1 ! i) = g"
    using assms(1,2) k1 by (simp_all add: w1 settle_def)
  have f3: "in_try (tasks w1 ! i) \<or> state w1 = LISTENING"
    using gd f1(2) f2(3) by simp
  note td = teardown_cancels [OF f1(3) f1(4) assms(7) f2(1) f2(2) f3, of t]
  have nd: "\<not> task_done w1 i" using f1(4) assms(7) by (simp add: task_done_def)
  have bi: "\<exists>w2. handle_audio_chunk t f w1 = Inr w2 \<and> state w2 = USER_SPEAKING \<and>
                   conversation_history w2 = conversation_history w1 \<and>
                   status (tasks w2 ! i) = TaskCancelled \<and> processing_task w2 = None"
    if b: "is_ai_speaking w1 \<and> calculate_rms f = Inr rms \<and> rms > BARGE_IN_THRESHOLD \<and>
          barge_in_frames w1 + 1 \<ge> MIN_BARGE_IN_FRAMES"
  proof -
    from b have b1: "state w1 = AI_SPEAKING \<or> state w1 = GREETING"
      and b2: "calculate_rms f = Inr rms" and b3: "rms > BARGE_IN_THRESHOLD"
      and b4: "barge_in_frames w1 + 1 \<ge> MIN_BARGE_IN_FRAMES"
      by (simp_all add: is_ai_speaking_def)
    from barge_in_fires [OF b1 b2 b3 b4, of t] f1(3) nd show ?thesis by auto
  qed
  show ?thesis using h f1(1) td bi by simp
qed

lemma turn_created_facts:
  "0 < length (tasks turn_created)" "kind (tasks turn_created ! 0) = Utterance loud2"
  "status (tasks turn_created ! 0) = TaskPending" "\<not> started (tasks turn_created ! 0)"
  "processing_task turn_created = Some 0"
  by (simp_all add: turn_created_def create_task_def processing_world_def set_state_def
      new_session_def)

lemma turn_created_run:
  "status (tasks (run_task 1 0 (TurnEnv turn_ok) (Some 12) turn_created) ! 0) = TaskPending"
  "state (run_task 1 0 (TurnEnv turn_ok) (Some 12) turn_created) = AI_SPEAKING"
  "barge_in_frames (run_task 1 0 (TurnEnv turn_ok) (Some 12) turn_created) = 2"
  "conversation_history (run_task 1 0 (TurnEnv turn_ok) (Some 12) turn_created) = []"
  by (simp_all add: turn_created_def processing_world_def loud2_def run_defs)

theorem cancelled_turn_witness:
  "status (tasks (run_task 1 0 (TurnEnv turn_ok) (Some 12) turn_created) ! 0) = TaskPending \<and>
   is_ai_speaking (run_task 1 0 (TurnEnv turn_ok) (Some 12) turn_created) \<and>
   calculate_rms loud2 = Inr 4112 \<and>
   state (teardown 5 (run_task 1 0 (TurnEnv turn_ok) (Some 12) turn_created)) = LISTENING \<and>
   conversation_history (teardown 5 (run_task 1 0 (TurnEnv turn_ok) (Some 12) turn_created)) = [] \<and>
   (\<exists>w2. handle_audio_chunk 5 loud2 (run_task 1 0 (TurnEnv turn_ok) (Some 12) turn_created)
            = Inr w2 \<and> state w2 = USER_SPEAKING \<and> conversation_history w2 = [] \<and>
          status (tasks w2 ! 0) = TaskCancelled \<and> processing_task w2 = None)"
  using cancelled_turn [OF turn_created_facts refl turn_created_run(1), of 5 loud2 4112]
    turn_created_run rms_loud2
  by (simp add: is_ai_speaking_def thresholds)

section \<open>Transitions on inbound messages\<close>

lemma detect_speech_state:
  "detect_speech now f w = Inr (v, w1) \<Longrightarrow>
   state w1 = state w \<and> (v = speech_end \<longrightarrow> is_speaking w)"
  by (auto simp: detect_speech_def Let_def split: sum.splits if_splits)

lemma muted_chunk_state:
  assumes "state w = AI_SPEAKING \<or> state w = GREETING" "handle_audio_chunk now f w = Inr w'"
  shows "state w' = state w \<or> state w' = USER_SPEAKING"
  using assms
  by (auto simp: handle_audio_chunk_def Let_def set_state_def send_event_def
      split: sum.splits if_splits)

lemma vad_chunk_state:
  assumes "state w = LISTENING \<or> state w = USER_SPEAKING" "state w = LISTENING \<longrightarrow> \<not> is_speaking w"
    "handle_audio_chunk now f w = Inr w'"
  shows "state w' = state w \<or> table_audio (state w) (state w')"
proof (cases "in_cooldown now w")
  case True
  with assms(1,3) show ?thesis by (auto simp: handle_audio_chunk_def)
next
  case False
  from assms(1,3) False obtain v w1 where d: "detect_speech now f w = Inr (v, w1)"
    by (auto simp: handle_audio_chunk_def split: sum.splits)
  from detect_speech_state [OF d]
  have s: "state w1 = state w" and e: "v = speech_end \<longrightarrow> is_speaking w" by simp_all
  have h: "handle_audio_chunk now f w =
     (case v of
        speech_start \<Rightarrow>
          Inr ((send_event (Vad True) (set_state now USER_SPEAKING w1))\<lparr>audio_buffer := f\<rparr>)
      | speech_continue \<Rightarrow>
          Inr (if is_speaking w1 then w1\<lparr>audio_buffer := audio_buffer w1 @ f\<rparr> else w1)
      | speech_end \<Rightarrow>
          (if length (audio_buffer w1) < MIN_AUDIO_BYTES
           then Inr (set_state now LISTENING ((send_event (Vad False) w1)\<lparr>audio_buffer := []\<rparr>))
           else Inr (create_task (Utterance (audio_buffer w1))
                       ((set_state now PROCESSING (send_event (Vad False) w1))\<lparr>audio_buffer := []\<rparr>)))
      | silence \<Rightarrow> Inr w1)"
    using assms(1) False d
    by (auto simp: handle_audio_chunk_def Let_def send_event_def set_state_def split: vad.splits)
  show ?thesis
  proof (cases v)
    case speech_start
    with h assms(3) have "state w' = USER_SPEAKING"
      by (auto simp: set_state_def send_event_def)
    with assms(1) show ?thesis by (auto simp: table_audio_def)
  next
    case speech_continue
    with h assms(3) s have "state w' = state w" by (auto split: if_splits)
    then show ?thesis by simp
  next
    case speech_end
    with e assms(1,2) have u: "state w = USER_SPEAKING" by auto
    from speech_end h assms(3) have "state w' = LISTENING \<or> state w' = PROCESSING"
      by (auto simp: set_state_def send_event_def create_task_def split: if_splits)
    with u show ?thesis by (auto simp: table_audio_def)
  next
    case silence
    with h assms(3) s show ?thesis by auto
  qed
qed

lemma handle_audio_chunk_table:
  assumes "state w = LISTENING \<longrightarrow> \<not> is_speaking w" "handle_audio_chunk now f w = Inr w'"
  shows "state w' = state w \<or> table_audio (state w) (state w')"
proof (cases "state w")
  case GREETING
  with muted_chunk_state [OF _ assms(2)] show ?thesis by (auto simp: table_audio_def)
next
  case AI_SPEAKING
  with muted_chunk_state [OF _ assms(2)] show ?thesis by (auto simp: table_audio_def)
next
  case PROCESSING
  with assms(2) show ?thesis by (simp add: handle_audio_chunk_def)
next
  case LISTENING
  with vad_chunk_state [OF _ assms] show ?thesis by simp
next
  case USER_SPEAKING
  with vad_chunk_state [OF _ assms] show ?thesis by simp
qed

lemma check_watchdog_state:
  "state (check_watchdog now w) =
     (if (state w = AI_SPEAKING \<and> now - state_entered_at w > 30)
         \<or> (state w = GREETING \<and> now - state_entered_at w > 120)
      then LISTENING else state w)"
  by (simp add: check_watchdog_def set_state_def send_event_def WATCHDOG_TIMEOUT_S_def
      GREETING_TIMEOUT_S_def)

lemma playback_done_state:
  "after state (dispatch now PlaybackDoneMsg w) = Some LISTENING"
  by (simp add: after_def dispatch_def handle_playback_done_def set_state_def send_event_def)

lemma end_state:
  "after state (dispatch now EndMsg w) =
     Some (case processing_task w of
             None \<Rightarrow> state w
           | Some i \<Rightarrow>
               if \<not> task_done w i \<and> (\<exists>a. kind (tasks w ! i) = Utterance a)
                  \<and> started (tasks w ! i) \<and> in_try (tasks w ! i)
               then LISTENING else state w)"
  by (auto simp: after_def dispatch_def teardown_def Let_def task_done_def cancel_task_def
      on_cancelled_def set_state_def split: option.splits task_kind.splits)

text \<open>
  C1 (amended): the messages \<open>config\<close>, \<open>user_interrupt\<close>, \<open>pong\<close>, those of an
  unknown type and an audio message without data leave the session as it is. The watchdog
  puts the session in LISTENING exactly when it has been in AI\_SPEAKING for more than 30 s
  or in GREETING for more than 120 s, and leaves the state alone otherwise. An audio frame
  that is handled without an error changes the state only along a transition of the table,
  for a session whose detector is not speaking when it is in LISTENING. A \<open>playback_done\<close>
  message received in AI\_SPEAKING or GREETING puts the session in LISTENING. An \<open>end\<close>
  message leaves the state as it is, unless it cancels a pipeline task suspended inside its
  \<open>try\<close> block, whose handler puts the session in LISTENING.
\<close>

theorem inbound_transitions:
  "(m \<in> {ConfigMsg, UserInterruptMsg, PongMsg, OtherMsg, AudioMsg NoData} \<longrightarrow>
      dispatch now m w = Inr w) \<and>
   state (check_watchdog now w) =
     (if (state w = AI_SPEAKING \<and> now - state_entered_at w > 30)
         \<or> (state w = GREETING \<and> now - state_entered_at w > 120)
      then LISTENING else state w) \<and>
   ((state w = LISTENING \<longrightarrow> \<not> is_speaking w) \<and> (m = AudioMsg (Base64 f) \<or> m = BinaryMsg f) \<and>
    dispatch now m w = Inr w' \<longrightarrow>
      state w' = state w \<or> table_audio (state w) (state w')) \<and>
   (is_ai_speaking w \<longrightarrow> after state (dispatch now PlaybackDoneMsg w) = Some LISTENING) \<and>
   after state (dispatch now EndMsg w) =
     Some (case processing_task w of
             None \<Rightarrow> state w
           | Some i \<Rightarrow>
               if \<not> task_done w i \<and> (\<exists>a. kind (tasks w ! i) = Utterance a)
                  \<and> started (tasks w ! i) \<and> in_try (tasks w ! i)
               then LISTENING else state w)"
proof (intro conjI impI)
  show "dispatch now m w = Inr w"
    if "m \<in> {ConfigMsg, UserInterruptMsg, PongMsg, OtherMsg, AudioMsg NoData}"
    using that by (auto simp: dispatch_def handle_user_interrupt_def)
  show "state (check_watchdog now w) =
     (if (state w = AI_SPEAKING \<and> now - state_entered_at w > 30)
         \<or> (state w = GREETING \<and> now - state_entered_at w > 120)
      then LISTENING else state w)"
    by (rule check_watchdog_state)
  show "after state (dispatch now PlaybackDoneMsg w) = Some LISTENING"
    by (rule playback_done_state)
  show "after state (dispatch now EndMsg w) =
     Some (case processing_task w of
             None \<Rightarrow> state w
           | Some i \<Rightarrow>
               if \<not> task_done w i \<and> (\<exists>a. kind (tasks w ! i) = Utterance a)
                  \<and> started (tasks w ! i) \<and> in_try (tasks w ! i)
               then LISTENING else state w)"
    by (rule end_state)
next
  assume a: "(state w = LISTENING \<longrightarrow> \<not> is_speaking w) \<and>
    (m = AudioMsg (Base64 f) \<or> m = BinaryMsg f) \<and> dispatch now m w = Inr w'"
  then have a1: "state w = LISTENING \<longrightarrow> \<not> is_speaking w"
    and a2: "m = AudioMsg (Base64 f) \<or> m = BinaryMsg f" and a3: "dispatch now m w = Inr w'"
    by simp_all
  from a2 a3 have "handle_audio_chunk now f w = Inr w'"
    by (auto simp: dispatch_def)
  then show "state w' = state w \<or> table_audio (state w) (state w')"
    by (rule handle_audio_chunk_table [OF a1])
qed

lemma listening_facts:
  "state listening_world = LISTENING" "\<not> is_speaking listening_world"
  "\<exists>w'. dispatch 1 (AudioMsg (Base64 loud2)) listening_world = Inr w' \<and> state w' = USER_SPEAKING"
  "processing_task listening_world = None"
  by (simp_all add: listening_world_def dispatch_def new_session_def run_defs)

lemma greeting_facts:
  "is_ai_speaking (new_session 0)" "state (new_session 0) = GREETING"
  "state_entered_at (new_session 0) = 0"
  by (simp_all add: is_ai_speaking_def new_session_def)

theorem inbound_transitions_witness:
  "state listening_world = LISTENING \<and> \<not> is_speaking listening_world \<and>
   dispatch 1 PongMsg listening_world = Inr listening_world \<and>
   (\<exists>w'. dispatch 1 (AudioMsg (Base64 loud2)) listening_world = Inr w' \<and>
          state w' = USER_SPEAKING \<and> table_audio (state listening_world) (state w')) \<and>
   is_ai_speaking (new_session 0) \<and>
   after state (dispatch 1 PlaybackDoneMsg (new_session 0)) = Some LISTENING \<and>
   state (check_watchdog 120 (new_session 0)) = GREETING \<and>
   state (check_watchdog 121 (new_session 0)) = LISTENING \<and>
   after state (dispatch 1 EndMsg listening_world) = Some LISTENING"
proof -
  from listening_facts(3) obtain w'
    where d: "dispatch 1 (AudioMsg (Base64 loud2)) listening_world = Inr w'"
      "state w' = USER_SPEAKING"
    by blast
  from inbound_transitions [of "AudioMsg (Base64 loud2)" 1 listening_world loud2 w'] d
    listening_facts(1,2)
  have t: "table_audio (state listening_world) (state w')" by simp
  from inbound_transitions [of PongMsg 1 listening_world loud2 w']
  have p: "dispatch 1 PongMsg listening_world = Inr listening_world" by simp
  from inbound_transitions [of PongMsg 1 listening_world loud2 w'] listening_facts(1,4)
  have e: "after state (dispatch 1 EndMsg listening_world) = Some LISTENING" by simp
  from inbound_transitions [of PongMsg 1 "new_session 0" loud2 w'] greeting_facts
  have b: "after state (dispatch 1 PlaybackDoneMsg (new_session 0)) = Some LISTENING" by simp
  from inbound_transitions [of PongMsg 120 "new_session 0" loud2 w'] greeting_facts
  have w0: "state (check_watchdog 120 (new_session 0)) = GREETING" by simp
  from inbound_transitions [of PongMsg 121 "new_session 0" loud2 w'] greeting_facts
  have w1: "state (check_watchdog 121 (new_session 0)) = LISTENING" by simp
  show ?thesis using d t p e b w0 w1 greeting_facts(1) listening_facts(1,2) by blast
qed

text \<open>
  C1 (as stated): an event that is not in the table for the current state leaves the state
  unchanged, and so does a \<open>playback_done\<close> message received in PROCESSING or
  USER\_SPEAKING. \<open>handle_playback_done\<close> does not look at the state: while the pipeline
  of the first turn waits for its transcription (PROCESSING, task 1 in flight), the message
  puts the session in LISTENING with the task still in flight; and a session in
  USER\_SPEAKING goes to LISTENING too. An \<open>end\<close> message received in PROCESSING cancels
  the task, whose handler puts the session in LISTENING. And a pipeline that ends with an
  empty transcription after the user has started to speak again leaves the session in
  LISTENING with the detector speaking: the fourth silent frame then takes it from
  LISTENING to PROCESSING.
\<close>

theorem playback_done_leaves_processing:
  "after state (run first_turn_started (connect 0)) = Some PROCESSING \<and>
   after in_flight (run first_turn_started (connect 0)) = Some [1] \<and>
   after state (run (first_turn_started @ [Received 10 PlaybackDoneMsg]) (connect 0))
     = Some LISTENING \<and>
   after in_flight (run (first_turn_started @ [Received 10 PlaybackDoneMsg]) (connect 0))
     = Some [1] \<and>
   state speaking_session = USER_SPEAKING \<and>
   after state (dispatch 1 PlaybackDoneMsg speaking_session) = Some LISTENING \<and>
   after state (run (first_turn_started @ [Received 10 EndMsg]) (connect 0)) = Some LISTENING \<and>
   after state (run listening_while_speaking (connect 0)) = Some LISTENING \<and>
   after is_speaking (run listening_while_speaking (connect 0)) = Some True \<and>
   after state (run (listening_while_speaking @ [Received 17 (BinaryMsg quiet2)]) (connect 0))
     = Some PROCESSING"
  by (simp add: after_def in_flight_def first_turn_started_def speaking_session_def
      listening_while_speaking_def turn_silent_def run_defs)

section \<open>Properties of the truncation\<close>

lemma rfind_bounds: "-1 \<le> rfind s c \<and> rfind s c < int (length s)"
  by (induction s) (auto simp: Let_def)

lemma rfind_nth: "0 \<le> rfind s c \<Longrightarrow> s ! nat (rfind s c) = c"
  by (induction s) (auto simp: Let_def nat_add_distrib split: if_splits)

lemma rfind_after: "rfind s c < int k \<Longrightarrow> k < length s \<Longrightarrow> s ! k \<noteq> c"
proof (induction s arbitrary: k)
  case Nil
  then show ?case by simp
next
  case (Cons x xs)
  show ?case
  proof (cases k)
    case 0
    with Cons.prems show ?thesis by (auto simp: Let_def split: if_splits)
  next
    case (Suc j)
    with Cons.prems have "rfind xs c < int j" "j < length xs"
      using rfind_bounds [of xs c] by (auto simp: Let_def split: if_splits)
    with Cons.IH Suc show ?thesis by simp
  qed
qed

lemma rfind_eqI:
  assumes "i < length s" "s ! i = c" "\<forall>k. i < k \<and> k < length s \<longrightarrow> s ! k \<noteq> c"
  shows "rfind s c = int i"
proof -
  have "\<not> rfind s c < int i" using rfind_after [of s c i] assms by auto
  moreover have "\<not> int i < rfind s c"
  proof
    assume a: "int i < rfind s c"
    then have "0 \<le> rfind s c" by simp
    then have "s ! nat (rfind s c) = c" by (rule rfind_nth)
    moreover have "i < nat (rfind s c)" "nat (rfind s c) < length s"
      using a rfind_bounds [of s c] by auto
    ultimately show False using assms(3) by blast
  qed
  ultimately show ?thesis by simp
qed

lemma rfind_le:
  assumes "\<forall>k. i < k \<and> k < length s \<longrightarrow> s ! k \<noteq> c"
  shows "rfind s c \<le> int i"
proof (rule ccontr)
  assume "\<not> rfind s c \<le> int i"
  then have a: "int i < rfind s c" by simp
  then have "0 \<le> rfind s c" by simp
  then have "s ! nat (rfind s c) = c" by (rule rfind_nth)
  moreover have "i < nat (rfind s c)" "nat (rfind s c) < length s"
    using a rfind_bounds [of s c] by auto
  ultimately show False using assms by blast
qed

lemma last_period_eq:
  assumes "last_at sentence_mark txt limit i"
  shows "last_period_of (take limit txt) = int i"
proof -
  let ?t = "take limit txt"
  from assms have i: "i < length ?t" and m: "sentence_mark (?t ! i)"
    and after: "\<forall>k. i < k \<and> k < length ?t \<longrightarrow> \<not> sentence_mark (?t ! k)"
    by (auto simp: last_at_def)
  have le: "rfind ?t c \<le> int i" if "sentence_mark c" for c
    using after that by (intro rfind_le) auto
  have eq: "rfind ?t (?t ! i) = int i"
    using i after m by (intro rfind_eqI) auto
  have marks: "sentence_mark ch_period" "sentence_mark ch_bang" "sentence_mark ch_question" "sentence_mark ch_danda"
    by (simp_all add: sentence_mark_def)
  from m have "?t ! i = ch_period \<or> ?t ! i = ch_bang \<or> ?t ! i = ch_question \<or> ?t ! i = ch_danda"
    by (simp add: sentence_mark_def)
  then have ge: "int i \<le> last_period_of ?t"
    unfolding last_period_of_def using eq by (auto simp: le_max_iff_disj)
  have "last_period_of ?t \<le> int i"
    unfolding last_period_of_def by (simp add: le marks)
  with ge show ?thesis by simp
qed

lemma last_period_small:
  assumes "\<forall>i. limit div 2 < i \<and> i < limit \<and> i < length txt \<longrightarrow> \<not> sentence_mark (txt ! i)"
  shows "last_period_of (take limit txt) \<le> int (limit div 2)"
proof -
  let ?t = "take limit txt"
  have le: "rfind ?t c \<le> int (limit div 2)" if "sentence_mark c" for c
    using assms that by (intro rfind_le) auto
  show ?thesis
    unfolding last_period_of_def
    by (simp add: le sentence_mark_def)
qed

lemma last_space_eq:
  assumes "last_at (\<lambda>c. c = ch_space) txt limit j"
  shows "rfind (take limit txt) ch_space = int j"
  using assms by (intro rfind_eqI) (auto simp: last_at_def)

lemma last_space_small:
  assumes "\<forall>i. limit div 2 < i \<and> i < limit \<and> i < length txt \<longrightarrow> txt ! i \<noteq> ch_space"
  shows "rfind (take limit txt) ch_space \<le> int (limit div 2)"
  using assms by (intro rfind_le) auto

lemma smart_truncate_unfold:
  "smart_truncate txt limit =
     (if length txt \<le> limit then txt
      else if last_period_of (take limit txt) > int (limit div 2)
           then take (nat (last_period_of (take limit txt) + 1)) (take limit txt)
      else if rfind (take limit txt) ch_space > int (limit div 2)
           then take (nat (rfind (take limit txt) ch_space)) (take limit txt) @ ellipsis
      else take limit txt @ ellipsis)"
  unfolding smart_truncate_def Let_def by (rule refl)

lemma smart_truncate_short: "length txt \<le> limit \<Longrightarrow> smart_truncate txt limit = txt"
  by (simp only: smart_truncate_unfold if_True)

lemma smart_truncate_sentence:
  assumes "limit < length txt" "last_at sentence_mark txt limit i" "limit div 2 < i"
  shows "smart_truncate txt limit = take (i + 1) txt"
proof -
  have lp: "last_period_of (take limit txt) = int i" using assms(2) by (rule last_period_eq)
  have "i < limit" using assms(2) by (simp add: last_at_def)
  then have m: "min (i + 1) limit = i + 1" by simp
  have n: "nat (int i + 1) = i + 1" by simp
  have "smart_truncate txt limit = take (nat (int i + 1)) (take limit txt)"
    using assms(1,3) by (simp only: smart_truncate_unfold lp) simp
  then show ?thesis by (simp only: n take_take m)
qed

lemma smart_truncate_word:
  assumes "limit < length txt"
    "\<forall>k. limit div 2 < k \<and> k < limit \<longrightarrow> \<not> sentence_mark (txt ! k)"
    "last_at (\<lambda>c. c = ch_space) txt limit j" "limit div 2 < j"
  shows "smart_truncate txt limit = take j txt @ ellipsis"
proof -
  have lp: "\<not> int (limit div 2) < last_period_of (take limit txt)"
    using last_period_small [of limit "txt"] assms(2) by fastforce
  have ls: "rfind (take limit txt) ch_space = int j" using assms(3) by (rule last_space_eq)
  have "j < limit" using assms(3) by (simp add: last_at_def)
  then have m: "min j limit = j" by simp
  have "smart_truncate txt limit = take (nat (int j)) (take limit txt) @ ellipsis"
    using assms(1,4) lp by (simp only: smart_truncate_unfold ls) simp
  then show ?thesis by (simp only: nat_int take_take m)
qed

lemma smart_truncate_hard:
  assumes "limit < length txt"
    "\<forall>k. limit div 2 < k \<and> k < limit \<longrightarrow> \<not> sentence_mark (txt ! k) \<and> txt ! k \<noteq> ch_space"
  shows "smart_truncate txt limit = take limit txt @ ellipsis"
proof -
  have lp: "\<not> int (limit div 2) < last_period_of (take limit txt)"
    using last_period_small [of limit "txt"] assms(2) by fastforce
  have ls: "\<not> int (limit div 2) < rfind (take limit txt) ch_space"
    using last_space_small [of limit "txt"] assms(2) by fastforce
  show ?thesis
    using assms(1) lp ls by (simp only: smart_truncate_unfold) simp
qed

lemma rfind_absent: "c \<notin> set s \<Longrightarrow> rfind s c = -1"
  by (induction s) (auto simp: Let_def)

lemma rfind_append_absent: "c \<notin> set ys \<Longrightarrow> rfind (xs @ ys) c = rfind xs c"
  by (induction xs) (auto simp: Let_def rfind_absent)

lemma rfind_snoc_hit: "rfind (xs @ [c]) c = int (length xs)"
  by (induction xs) (auto simp: Let_def)

lemma take_two_words: "take DEFAULT_LIMIT two_words = (replicate 300 97 @ [32]) @ replicate 189 98"
  by (simp add: DEFAULT_LIMIT_def two_words_def)

lemma two_words_no_period: "last_period_of (take DEFAULT_LIMIT two_words) = -1"
  by (simp add: take_two_words last_period_of_def rfind_absent ch_period_def ch_bang_def
      ch_question_def ch_danda_def)

lemma two_words_last_space: "rfind (take DEFAULT_LIMIT two_words) ch_space = 300"
proof -
  have "rfind ((replicate 300 97 @ [32]) @ replicate 189 98) 32 = rfind (replicate 300 97 @ [32]) 32"
    by (rule rfind_append_absent) simp
  also have "\<dots> = int (length (replicate 300 (97::nat)))" by (rule rfind_snoc_hit)
  finally show ?thesis by (simp add: take_two_words ch_space_def)
qed

text \<open>
  C8 (as stated): a cut at a word boundary carries no ellipsis, which is kept for hard cuts.
  The code appends the ellipsis to the word-boundary cut as well: the 601-character text
  \<open>two_words\<close>, cut with the default limit at its space (index 300), comes back with
  three trailing periods.
\<close>

theorem smart_truncate_word_cut_has_ellipsis:
  "smart_truncate two_words DEFAULT_LIMIT = replicate 300 97 @ [46, 46, 46] \<and>
   smart_truncate two_words DEFAULT_LIMIT \<noteq> replicate 300 97"
proof -
  have "smart_truncate two_words DEFAULT_LIMIT = take 300 (take DEFAULT_LIMIT two_words) @ ellipsis"
    by (simp add: smart_truncate_unfold two_words_no_period two_words_last_space)
       (simp add: DEFAULT_LIMIT_def two_words_def)
  also have "\<dots> = replicate 300 97 @ [46, 46, 46]"
    by (simp add: take_two_words ellipsis_def)
  finally show ?thesis by simp
qed

text \<open>
  C8 (amended): a text no longer than the limit is returned unchanged. A longer text is cut
  just after its last sentence mark before the limit when that mark's index exceeds
  \<open>limit div 2\<close>; otherwise at its last space before the limit when that space's
  index exceeds \<open>limit div 2\<close>, followed by an ellipsis; otherwise after \<open>limit\<close>
  characters, followed by an ellipsis.
\<close>

theorem smart_truncate_cases:
  "(length txt \<le> limit \<longrightarrow> smart_truncate txt limit = txt) \<and>
   (limit < length txt \<and> last_at sentence_mark txt limit i \<and> limit div 2 < i
      \<longrightarrow> smart_truncate txt limit = take (i + 1) txt) \<and>
   (limit < length txt \<and>
    (\<forall>k. limit div 2 < k \<and> k < limit \<longrightarrow> \<not> sentence_mark (txt ! k)) \<and>
    last_at (\<lambda>c. c = ch_space) txt limit j \<and> limit div 2 < j
      \<longrightarrow> smart_truncate txt limit = take j txt @ ellipsis) \<and>
   (limit < length txt \<and>
    (\<forall>k. limit div 2 < k \<and> k < limit \<longrightarrow> \<not> sentence_mark (txt ! k) \<and> txt ! k \<noteq> ch_space)
      \<longrightarrow> smart_truncate txt limit = take limit txt @ ellipsis)"
proof (intro conjI impI)
  assume "length txt \<le> limit"
  then show "smart_truncate txt limit = txt" by (rule smart_truncate_short)
next
  assume "limit < length txt \<and> last_at sentence_mark txt limit i \<and> limit div 2 < i"
  then show "smart_truncate txt limit = take (i + 1) txt"
    by (elim conjE) (rule smart_truncate_sentence)
next
  assume "limit < length txt \<and>
    (\<forall>k. limit div 2 < k \<and> k < limit \<longrightarrow> \<not> sentence_mark (txt ! k)) \<and>
    last_at (\<lambda>c. c = ch_space) txt limit j \<and> limit div 2 < j"
  then show "smart_truncate txt limit = take j txt @ ellipsis"
    by (elim conjE) (rule smart_truncate_word)
next
  assume "limit < length txt \<and>
    (\<forall>k. limit div 2 < k \<and> k < limit \<longrightarrow> \<not> sentence_mark (txt ! k) \<and> txt ! k \<noteq> ch_space)"
  then show "smart_truncate txt limit = take limit txt @ ellipsis"
    by (elim conjE) (rule smart_truncate_hard)
qed

theorem smart_truncate_cases_witness:
  "smart_truncate [97, 97, 97] 10 = [97, 97, 97] \<and>
   last_at sentence_mark w_sentence 10 6 \<and>
   smart_truncate w_sentence 10 = [97,97,97,97,97,97,46] \<and>
   last_at (\<lambda>c. c = ch_space) w_word 10 6 \<and>
   smart_truncate w_word 10 = [97,97,97,97,97,97,46,46,46] \<and>
   smart_truncate w_hard 10 = [97,97,97,97,97,97,97,97,97,97,46,46,46]"
proof -
  have h1: "last_at sentence_mark w_sentence 10 6"
    by (auto simp: last_at_def w_sentence_def nth_Cons' sentence_mark_def ch_period_def
        ch_bang_def ch_question_def ch_danda_def)
  have h2: "last_at (\<lambda>c. c = ch_space) w_word 10 6"
    by (auto simp: last_at_def w_word_def nth_Cons' ch_space_def)
  have h3: "\<forall>k. 10 div 2 < k \<and> k < 10 \<longrightarrow> \<not> sentence_mark (w_word ! k)"
    by (auto simp: w_word_def nth_Cons' sentence_mark_def ch_period_def
        ch_bang_def ch_question_def ch_danda_def)
  have h4: "\<forall>k. 10 div 2 < k \<and> k < 10 \<longrightarrow> \<not> sentence_mark (w_hard ! k) \<and> w_hard ! k \<noteq> ch_space"
    by (auto simp: w_hard_def nth_Cons' sentence_mark_def ch_period_def
        ch_bang_def ch_question_def ch_danda_def ch_space_def)
  have l: "length w_sentence = 14" "length w_word = 13" "length w_hard = 13"
    by (simp_all add: w_sentence_def w_word_def w_hard_def)
  show ?thesis
    using smart_truncate_cases [of "[97, 97, 97]" 10 0 0]
      smart_truncate_cases [of w_sentence 10 6 0]
      smart_truncate_cases [of w_word 10 0 6]
      smart_truncate_cases [of w_hard 10 0 0]
      h1 h2 h3 h4
    by (simp add: l) (simp add: w_sentence_def w_word_def w_hard_def ellipsis_def)
qed

end
